theory Spec2Isabelle
  imports Main "HOL-Library.Sublist" "HOL-Library.Char_ord" "HOL-Library.List_Lexorder"
    "HOL-Library.AList"
begin

section \<open>Python string primitives used by the scraper\<close>

text \<open>
  Python strings are modelled as \<open>string\<close>, one \<open>char\<close> per character: the
  characters are the code points 0 to 255, and the character classes below are Python's
  Unicode classes on these code points.
\<close>

definition is_space :: "char \<Rightarrow> bool" where
  \<comment> \<open>the characters for which \<open>str.isspace\<close> holds, which are those \<open>str.strip()\<close> removes and
      \<open>\s\<close> matches: TAB, LF, VT, FF, CR, FS, GS, RS, US, SPACE, NEL (U+0085), NBSP (U+00A0)\<close>
  "is_space c =
     (let n = (of_char c :: nat)
      in (9 \<le> n \<and> n \<le> 13) \<or> (28 \<le> n \<and> n \<le> 32) \<or> n = 133 \<or> n = 160)"

definition is_digit :: "char \<Rightarrow> bool" where
  "is_digit c = (let n = (of_char c :: nat) in 48 \<le> n \<and> n \<le> 57)"

definition is_upper :: "char \<Rightarrow> bool" where
  \<comment> \<open>the regular-expression class \<open>[A-Z]\<close>\<close>
  "is_upper c = (let n = (of_char c :: nat) in 65 \<le> n \<and> n \<le> 90)"

definition lower_char :: "char \<Rightarrow> char" where
  \<comment> \<open>the letters A to Z and the upper-case letters of U+00C0 to U+00DE (not U+00D7)\<close>
  "lower_char c =
     (let n = (of_char c :: nat)
      in if (65 \<le> n \<and> n \<le> 90) \<or> (192 \<le> n \<and> n \<le> 214) \<or> (216 \<le> n \<and> n \<le> 222)
         then char_of (n + 32) else c)"

definition lower :: "string \<Rightarrow> string" where
  \<comment> \<open>\<open>str.lower\<close>\<close>
  "lower s = map lower_char s"

definition strip :: "string \<Rightarrow> string" where
  \<comment> \<open>\<open>str.strip()\<close>: leading and trailing whitespace removed\<close>
  "strip s = rev (dropWhile is_space (rev (dropWhile is_space s)))"

definition is_int_space :: "char \<Rightarrow> bool" where
  \<comment> \<open>the whitespace that \<open>int\<close> skips around a numeral: TAB, LF, VT, FF, CR, SPACE, NEL, NBSP\<close>
  "is_int_space c =
     (let n = (of_char c :: nat) in (9 \<le> n \<and> n \<le> 13) \<or> n = 32 \<or> n = 133 \<or> n = 160)"

definition replace_space :: "string \<Rightarrow> string" where
  \<comment> \<open>\<open>s.replace(" ", "_")\<close>\<close>
  "replace_space s = map (\<lambda>c. if c = CHR '' '' then CHR ''_'' else c) s"

fun contains :: "string \<Rightarrow> string \<Rightarrow> bool" where
  \<comment> \<open>\<open>needle in hay\<close>\<close>
  "contains needle [] = (needle = [])"
| "contains needle (c # cs) = (prefix needle (c # cs) \<or> contains needle cs)"

definition py_slice_to :: "string \<Rightarrow> int \<Rightarrow> string" where
  \<comment> \<open>\<open>s[:k]\<close>: a negative \<open>k\<close> counts from the end\<close>
  "py_slice_to s k = (if 0 \<le> k then take (nat k) s else take (length s - nat (- k)) s)"

fun digit_string :: "nat \<Rightarrow> nat \<Rightarrow> string" where
  \<comment> \<open>the decimal digits of a number, most significant first; the first argument bounds
      the number of digits\<close>
  "digit_string 0 n = []"
| "digit_string (Suc k) n =
     (if n < 10 then [char_of (48 + n)]
      else digit_string k (n div 10) @ [char_of (48 + n mod 10)])"

fun split_on :: "char \<Rightarrow> string \<Rightarrow> string list" where
  \<comment> \<open>\<open>s.split(sep)\<close> for a separator of one character\<close>
  "split_on sep [] = [[]]"
| "split_on sep (c # cs) =
     (if c = sep then [] # split_on sep cs
      else (case split_on sep cs of [] \<Rightarrow> [[c]] | t # ts \<Rightarrow> (c # t) # ts))"

definition str_nat :: "nat \<Rightarrow> string" where
  \<comment> \<open>\<open>str(n)\<close> for a non-negative integer\<close>
  "str_nat n = digit_string (Suc n) n"

definition nat_of_digits :: "string \<Rightarrow> nat" where
  \<comment> \<open>the value of a run of decimal digits\<close>
  "nat_of_digits ds = foldl (\<lambda>n c. 10 * n + ((of_char c :: nat) - 48)) 0 ds"

fun digit_groups :: "string \<Rightarrow> bool" where
  \<comment> \<open>decimal digits, with single underscores allowed between digits\<close>
  "digit_groups [] = False"
| "digit_groups [c] = is_digit c"
| "digit_groups (c # d # cs) =
     (is_digit c \<and> (if d = CHR ''_'' then digit_groups cs else digit_groups (d # cs)))"

definition max_str_digits :: nat where
  \<comment> \<open>\<open>sys.get_int_max_str_digits()\<close>, at its default\<close>
  "max_str_digits = 4300"

definition py_int :: "string \<Rightarrow> int option" where
  \<comment> \<open>\<open>int(s)\<close>; \<open>None\<close> stands for \<open>ValueError\<close>, raised also for a numeral of more digits
      than the limit of the conversion\<close>
  "py_int s =
     (let t = rev (dropWhile is_int_space (rev (dropWhile is_int_space s)));
          (neg, body) = (case t of
                           [] \<Rightarrow> (False, t)
                         | c # r \<Rightarrow> if c = CHR ''-'' then (True, r)
                                   else if c = CHR ''+'' then (False, r) else (False, t))
      in if digit_groups body \<and> length (filter is_digit body) \<le> max_str_digits
         then (let n = int (nat_of_digits (filter is_digit body)) in Some (if neg then - n else n))
         else None)"

section \<open>\<open>clean_filename\<close>\<close>

definition illegal_chars :: string where
  \<comment> \<open>the character class of the pattern \<open>[\\/*?:"<>|]\<close>\<close>
  "illegal_chars = [CHR 0x5C, CHR ''/'', CHR ''*'', CHR ''?'', CHR '':'', CHR 0x22,
                    CHR ''<'', CHR ''>'', CHR ''|'']"


definition clean_filename :: "(string \<Rightarrow> string) \<Rightarrow> string \<Rightarrow> int \<Rightarrow> string" where
  \<comment> \<open>The first argument stands for \<open>hashlib.md5(text.encode()).hexdigest()\<close>.\<close>
  "clean_filename md5_hexdigest text max_length =
     (let clean = filter (\<lambda>c. c \<notin> set illegal_chars) text;
          clean = replace_space (strip clean)
      in if int (length clean) > max_length
         then (let hash_suffix = take 8 (md5_hexdigest text)
               in py_slice_to clean (max_length - 9) @ ''_'' @ hash_suffix)
         else clean)"


section \<open>The output tree and \<open>validate_html_file\<close>\<close>

datatype node =
    File nat "string option"  \<comment> \<open>size in bytes; decoded text, \<open>None\<close> when opening or reading raises\<close>
  | Dir "string list"         \<comment> \<open>the entries \<open>os.listdir\<close> returns\<close>

type_synonym filesystem = "string \<rightharpoonup> node"

definition validate_html_file :: "filesystem \<Rightarrow> string \<Rightarrow> bool" where
  "validate_html_file fs filepath =
     (case fs filepath of
        None \<Rightarrow> False
      | Some (Dir entries) \<Rightarrow> False  \<comment> \<open>\<open>open\<close> raises on a directory\<close>
      | Some (File fsize txt) \<Rightarrow>
          if fsize < 1000 then False
          else (case txt of
                  None \<Rightarrow> False
                | Some t \<Rightarrow>
                    (let content = take 500 t
                     in if \<not> contains ''<!doctype html>'' (lower content)
                           \<and> \<not> contains ''<html'' (lower content)
                        then False else True)))"

section \<open>Module discovery: the first loop of \<open>main\<close>\<close>

definition week_match_at :: "string \<Rightarrow> string option" where
  \<comment> \<open>the pattern \<open>Week\s+(\d+)\<close> with \<open>re.IGNORECASE\<close>, matched at the head of the text;
      the value is \<open>group(1)\<close>\<close>
  "week_match_at s =
     (if lower (take 4 s) = ''week''
      then (let r = drop 4 s;
                ds = takeWhile is_digit (dropWhile is_space r)
            in if takeWhile is_space r \<noteq> [] \<and> ds \<noteq> [] then Some ds else None)
      else None)"

fun week_search :: "string \<Rightarrow> string option" where
  \<comment> \<open>\<open>re.search\<close>: the leftmost position at which the pattern matches\<close>
  "week_search [] = None"
| "week_search (c # cs) =
     (case week_match_at (c # cs) of Some ds \<Rightarrow> Some ds | None \<Rightarrow> week_search cs)"

definition type_match :: "string \<Rightarrow> string option" where
  \<comment> \<open>\<open>re.match(r'^([A-Z]+)', badge_text)\<close>: the leading run of upper-case letters\<close>
  "type_match badge_text =
     (let g = takeWhile is_upper badge_text in if g = [] then None else Some g)"

record anchor =
  href :: string        \<comment> \<open>\<open>link.get('href')\<close>\<close>
  link_text :: string   \<comment> \<open>\<open>link.get_text(strip=True)\<close>\<close>
  users_icon :: bool    \<comment> \<open>whether \<open>link.find("i", class_=...)\<close> finds an icon with \<open>fa-users\<close>\<close>

record row =
  header_th :: "string option"  \<comment> \<open>text of the \<open>th\<close> with \<open>data-testid="assessment-group-heading"\<close>\<close>
  badge :: "string option"      \<comment> \<open>text of the first \<open>span\<close> of class \<open>badge\<close>\<close>
  link :: "anchor option"       \<comment> \<open>the first \<open>a\<close> with an \<open>href\<close>\<close>

record module_info =
  mt_count :: nat
  mt_is_group :: bool
  mt_sample_title :: string

record assessment =
  a_week :: string
  a_name :: string
  a_title :: string
  a_url :: string
  a_type :: string
  a_is_group :: bool

record scan_state =
  module_types :: "(string \<times> module_info) list"  \<comment> \<open>the dict, in insertion order\<close>
  temp_assessments :: "assessment list"
  current_week_num :: "nat option"
  fatal :: "string option"  \<comment> \<open>the exception that left the loop, for the handler at line 530\<close>

definition prairielearn_base :: string where
  "prairielearn_base = ''https://us.prairielearn.com''"

definition record_row :: "(string \<Rightarrow> string) \<Rightarrow> nat \<Rightarrow> string \<Rightarrow> anchor \<Rightarrow> string
    \<Rightarrow> scan_state \<Rightarrow> scan_state" where
  \<comment> \<open>lines 361 to 379: the aggregate of the type is created on its first row, its count is
      incremented, and the candidate is appended\<close>
  "record_row md5_hexdigest week_num badge_text l module_type st =
     (let mts = (if map_of (module_types st) module_type = None
                 then module_types st @
                        [(module_type, \<lparr>mt_count = 0, mt_is_group = users_icon l,
                                        mt_sample_title = link_text l\<rparr>)]
                 else module_types st);
          mts = AList.map_entry module_type (\<lambda>v. v\<lparr>mt_count := mt_count v + 1\<rparr>) mts;
          full_url = (if prefix ''http'' (href l) then href l else prairielearn_base @ href l)
      in st\<lparr>module_types := mts,
             temp_assessments := temp_assessments st @
               [\<lparr>a_week = clean_filename md5_hexdigest (''Week_'' @ str_nat week_num) 80,
                 a_name = clean_filename md5_hexdigest badge_text 80,
                 a_title = link_text l,
                 a_url = full_url,
                 a_type = module_type,
                 a_is_group = users_icon l\<rparr>]\<rparr>)"

definition scan_row :: "(string \<Rightarrow> string) \<Rightarrow> scan_state \<Rightarrow> row \<Rightarrow> scan_state" where
  \<comment> \<open>the body of \<open>for row in all_rows\<close>, lines 326 to 379\<close>
  "scan_row md5_hexdigest st r =
     (case header_th r of
        Some week_title \<Rightarrow>
          (case week_search week_title of
             Some digits \<Rightarrow>
               (case py_int digits of
                  None \<Rightarrow> st\<lparr>fatal := Some ''ValueError''\<rparr>
                | Some week_num \<Rightarrow>
                    if 1 \<le> week_num \<and> week_num \<le> 14
                    then st\<lparr>current_week_num := Some (nat week_num)\<rparr>
                    else st\<lparr>current_week_num := None\<rparr>)
           | None \<Rightarrow> st)
      | None \<Rightarrow>
          (case current_week_num st of
             None \<Rightarrow> st
           | Some week_num \<Rightarrow>
               (case badge r of
                  None \<Rightarrow> st
                | Some badge_text \<Rightarrow>
                    (case link r of
                       None \<Rightarrow> st
                     | Some l \<Rightarrow>
                         if href l = [] then st
                         else if contains ''/assessment/'' (href l)
                                 \<or> contains ''/assessment_instance/'' (href l)
                         then (case type_match badge_text of
                                 None \<Rightarrow> st
                               | Some module_type \<Rightarrow>
                                   record_row md5_hexdigest week_num badge_text l module_type st)
                         else st))))"

definition initial_scan :: scan_state where
  "initial_scan =
     \<lparr>module_types = [], temp_assessments = [], current_week_num = None, fatal = None\<rparr>"

fun scan_rows :: "(string \<Rightarrow> string) \<Rightarrow> scan_state \<Rightarrow> row list \<Rightarrow> scan_state" where
  \<comment> \<open>the loop \<open>for row in all_rows\<close>, left as soon as its body has raised\<close>
  "scan_rows md5_hexdigest st [] = st"
| "scan_rows md5_hexdigest st (r # rs) =
     (if fatal st \<noteq> None then st
      else scan_rows md5_hexdigest (scan_row md5_hexdigest st r) rs)"

definition discover :: "(string \<Rightarrow> string) \<Rightarrow> row list \<Rightarrow> scan_state" where
  "discover md5_hexdigest all_rows = scan_rows md5_hexdigest initial_scan all_rows"

definition valid_week_header :: "row \<Rightarrow> bool" where
  \<comment> \<open>a header row whose week number is in the range 1 to 14\<close>
  "valid_week_header r =
     (case header_th r of
        None \<Rightarrow> False
      | Some week_title \<Rightarrow>
          (case week_search week_title of
             None \<Rightarrow> False
           | Some digits \<Rightarrow>
               (case py_int digits of None \<Rightarrow> False | Some n \<Rightarrow> 1 \<le> n \<and> n \<le> 14)))"

section \<open>Selection: the second phase of \<open>main\<close>\<close>

definition split_comma :: "string \<Rightarrow> string list" where
  \<comment> \<open>\<open>s.split(',')\<close>\<close>
  "split_comma s = split_on (CHR '','') s"

datatype abort =
    NoDownloadableTypes
  | InvalidSelection
  | NoTypesSelected
  | FatalError string  \<comment> \<open>an exception that reached the handler at line 530\<close>

definition available_types :: "(string \<times> module_info) list \<Rightarrow> (string \<times> module_info) list" where
  "available_types mts = filter (\<lambda>(k, v). \<not> mt_is_group v) mts"

definition excluded_types :: "(string \<times> module_info) list \<Rightarrow> (string \<times> module_info) list" where
  "excluded_types mts = filter (\<lambda>(k, v). mt_is_group v) mts"

definition type_list_of :: "(string \<times> module_info) list \<Rightarrow> string list" where
  \<comment> \<open>\<open>sorted(available_types.keys())\<close>\<close>
  "type_list_of mts = sort (map fst (available_types mts))"

definition parse_selection :: "string list \<Rightarrow> string \<Rightarrow> abort + string set" where
  \<comment> \<open>lines 407 to 415; the guard \<open>1 <= i <= len(type_list)\<close> keeps \<open>type_list[i-1]\<close> in range\<close>
  "parse_selection type_list user_input =
     (if user_input = ''all'' then Inr (set type_list)
      else (case those (map (\<lambda>x. py_int (strip x)) (split_comma user_input)) of
              None \<Rightarrow> Inl InvalidSelection
            | Some indices \<Rightarrow>
                Inr ((\<lambda>i. type_list ! nat (i - 1)) `
                       set (filter (\<lambda>i. 1 \<le> i \<and> i \<le> int (length type_list)) indices))))"

definition select_types :: "(string \<times> module_info) list \<Rightarrow> string \<Rightarrow> abort + string set" where
  \<comment> \<open>lines 382 to 419; the second argument is the line the operator types\<close>
  "select_types mts typed =
     (if available_types mts = [] then Inl NoDownloadableTypes
      else (let type_list = type_list_of mts;
                user_input = lower (strip typed)
            in case parse_selection type_list user_input of
                 Inl e \<Rightarrow> Inl e
               | Inr selected_types \<Rightarrow>
                   if selected_types = {} then Inl NoTypesSelected else Inr selected_types))"

definition assessments_to_process :: "string set \<Rightarrow> assessment list \<Rightarrow> assessment list" where
  "assessments_to_process selected_types temps =
     filter (\<lambda>a. a_type a \<in> selected_types \<and> \<not> a_is_group a) temps"

definition plan :: "(string \<Rightarrow> string) \<Rightarrow> row list \<Rightarrow> string \<Rightarrow> abort + assessment list" where
  \<comment> \<open>discovery, selection and filtering: what \<open>main\<close> is about to crawl, or the error
      with which it returns before the crawl\<close>
  "plan md5_hexdigest all_rows typed =
     (let st = discover md5_hexdigest all_rows
      in case fatal st of
           Some exn \<Rightarrow> Inl (FatalError exn)
         | None \<Rightarrow>
             (case select_types (module_types st) typed of
                Inl e \<Rightarrow> Inl e
              | Inr selected_types \<Rightarrow>
                  Inr (assessments_to_process selected_types (temp_assessments st))))"

section \<open>\<open>download_with_retry\<close>\<close>

datatype response =
    Response nat string  \<comment> \<open>\<open>status_code\<close> and \<open>content\<close> of the response returned\<close>
  | Timeout              \<comment> \<open>\<open>requests.Timeout\<close> raised\<close>
  | Failure string       \<comment> \<open>any other exception raised, with its message\<close>

datatype dl_event =
    Fetch nat
  | Sleep nat
  | LogTimeout nat int
  | LogFailed nat string
  | LogSessionExpired

type_synonym cookies = "(string \<times> string) list"

text \<open>
  The loop \<open>for attempt in range(max_retries)\<close>. The first argument gives the outcome of
  the call of \<open>requests.get\<close> made by each attempt; the last counts the attempts left.
  The result is the value returned and the trace of fetches, log lines and sleeps.
\<close>

fun attempts :: "(nat \<Rightarrow> response) \<Rightarrow> int \<Rightarrow> nat \<Rightarrow> nat \<Rightarrow> string option \<times> dl_event list" where
  "attempts get max_retries attempt 0 = (None, [])"
| "attempts get max_retries attempt (Suc remaining) =
     (case get attempt of
        Response status_code content \<Rightarrow>
          if status_code = 200 then (Some content, [Fetch attempt])
          else if status_code = 401 then (None, [Fetch attempt, LogSessionExpired])
          else (let (r, evs) = attempts get max_retries (Suc attempt) remaining
                in (r, Fetch attempt # evs))
      | Timeout \<Rightarrow>
          (let (r, evs) = attempts get max_retries (Suc attempt) remaining
           in (r, [Fetch attempt, LogTimeout (attempt + 1) max_retries, Sleep (2 ^ attempt)] @ evs))
      | Failure e \<Rightarrow>
          (let (r, evs) = attempts get max_retries (Suc attempt) remaining
           in (r, [Fetch attempt, LogFailed (attempt + 1) e, Sleep (2 ^ attempt)] @ evs)))"

definition download_with_retry ::
    "(string \<Rightarrow> cookies \<Rightarrow> nat \<Rightarrow> response) \<Rightarrow> string \<Rightarrow> cookies \<Rightarrow> int
      \<Rightarrow> string option \<times> dl_event list" where
  "download_with_retry requests_get url cookies max_retries =
     attempts (requests_get url cookies) max_retries 0 (nat max_retries)"

text \<open>Notions used to state the behaviour of the retry loop.\<close>

definition final :: "response \<Rightarrow> bool" where
  "final resp = (case resp of Response status_code content \<Rightarrow> status_code = 200 \<or> status_code = 401
                 | _ \<Rightarrow> False)"

definition attempt_events :: "(nat \<Rightarrow> response) \<Rightarrow> int \<Rightarrow> nat \<Rightarrow> dl_event list" where
  "attempt_events get max_retries j =
     (case get j of
        Response status_code content \<Rightarrow>
          if status_code = 401 then [Fetch j, LogSessionExpired] else [Fetch j]
      | Timeout \<Rightarrow> [Fetch j, LogTimeout (j + 1) max_retries, Sleep (2 ^ j)]
      | Failure e \<Rightarrow> [Fetch j, LogFailed (j + 1) e, Sleep (2 ^ j)])"

definition is_fetch :: "dl_event \<Rightarrow> bool" where
  "is_fetch ev = (case ev of Fetch j \<Rightarrow> True | _ \<Rightarrow> False)"

definition flaky_get :: "string \<Rightarrow> cookies \<Rightarrow> nat \<Rightarrow> response" where
  \<comment> \<open>sample network: a timeout, a server error, then the image\<close>
  "flaky_get url cookies attempt =
     (if attempt = 0 then Timeout
      else if attempt = 1 then Response 500 ''Internal Server Error''
      else Response 200 ''PNG'')"

definition expired_get :: "string \<Rightarrow> cookies \<Rightarrow> nat \<Rightarrow> response" where
  \<comment> \<open>sample network: a connection error, then the session has expired\<close>
  "expired_get url cookies attempt =
     (if attempt = 0 then Failure ''connection reset'' else Response 401 ''Unauthorized'')"

section \<open>The crawl driver: the assessment and question loops of \<open>main\<close>\<close>

definition path_join :: "string \<Rightarrow> string \<Rightarrow> string" where
  \<comment> \<open>\<open>os.path.join(a, b)\<close> on a POSIX system\<close>
  "path_join a b =
     (if prefix ''/'' b then b
      else if a = [] \<or> last a = CHR ''/'' then a @ b
      else a @ ''/'' @ b)"

definition os_listdir :: "filesystem \<Rightarrow> string \<Rightarrow> string + string list" where
  \<comment> \<open>\<open>os.listdir\<close>: raises unless the path is a directory\<close>
  "os_listdir fs p =
     (case fs p of
        Some (Dir entries) \<Rightarrow> Inr entries
      | Some (File fsize txt) \<Rightarrow> Inl ''NotADirectoryError''
      | None \<Rightarrow> Inl ''FileNotFoundError'')"

record question =
  q_category :: string
  q_title :: string
  q_url :: string

record qrow =
  th_colspan :: "string option"        \<comment> \<open>text of the first \<open>th\<close> with a \<open>colspan\<close>\<close>
  q_link :: "(string \<times> string) option"  \<comment> \<open>\<open>href\<close> and text of the first \<open>a\<close> with an \<open>href\<close>\<close>



datatype event =
    LogProcessing string         \<comment> \<open>the assessment being processed\<close>
  | LogSessionLost
  | LogLoadFailed string
  | Navigate string              \<comment> \<open>\<open>driver.get(url)\<close> is called\<close>
  | LogSkipCompleted string      \<comment> \<open>line 476\<close>
  | LogSkip string               \<comment> \<open>line 497\<close>
  | LogDownloading string        \<comment> \<open>line 501\<close>
  | LogError string string       \<comment> \<open>line 520: the title and the exception\<close>

text \<open>
  The browser, the network and the writes to disk are outside the program. They are the
  fields of an environment over a type \<open>'w\<close> of browser states; an operation that can raise
  returns the exception's message, and the state it leaves behind.
\<close>

record 'w env =
  current_url :: "'w \<Rightarrow> string + string"
  page_rows :: "'w \<Rightarrow> qrow list"
  driver_get :: "string \<Rightarrow> 'w \<Rightarrow> string option \<times> 'w"
  expand_answer_panel :: "'w \<Rightarrow> 'w"
  download_images :: "string \<Rightarrow> filesystem \<Rightarrow> 'w \<Rightarrow> (string + string) \<times> filesystem \<times> 'w"
  save_html :: "string \<Rightarrow> string \<Rightarrow> string \<Rightarrow> filesystem \<Rightarrow> string option \<times> filesystem"
  take_full_page_screenshot :: "string \<Rightarrow> filesystem \<Rightarrow> 'w \<Rightarrow> bool \<times> filesystem \<times> 'w"

record 'w crawl_state =
  completed_questions :: "string set"
  disk :: filesystem
  world :: "'w"
  events :: "event list"


definition question_id_of :: "assessment \<Rightarrow> question \<Rightarrow> string" where
  "question_id_of assess q = a_name assess @ ''_'' @ q_title q"

definition question_folder_of :: "string \<Rightarrow> assessment \<Rightarrow> question \<Rightarrow> string" where
  "question_folder_of output_dir assess q =
     foldl path_join output_dir [a_week assess, a_name assess, q_category q, q_title q]"

definition resume_check :: "filesystem \<Rightarrow> string \<Rightarrow> string + bool" where
  \<comment> \<open>lines 491 to 496: whether the folder is complete; \<open>Inl\<close> when \<open>os.listdir\<close> raises\<close>
  "resume_check files question_folder =
     (let save_path = path_join question_folder ''index.html'';
          screenshot_path = path_join question_folder ''render.png''
      in if validate_html_file files save_path
         then (let images_folder = path_join question_folder ''images''
               in case (if files images_folder = None then Inr True
                        else (case os_listdir files images_folder of
                                Inl exn \<Rightarrow> Inl exn
                              | Inr entries \<Rightarrow> Inr (length entries = 0))) of
                    Inl exn \<Rightarrow> Inl exn
                  | Inr needs_images \<Rightarrow>
                      (let needs_screenshot = (files screenshot_path = None)
                       in Inr (\<not> needs_images \<and> \<not> needs_screenshot)))
         else Inr False)"

definition fetch_question :: "'w env \<Rightarrow> string \<Rightarrow> assessment \<Rightarrow> question \<Rightarrow> 'w crawl_state
    \<Rightarrow> string option \<times> 'w crawl_state" where
  \<comment> \<open>lines 501 to 517; the first component is the exception raised, if any\<close>
  "fetch_question e output_dir assess q st =
     (let question_folder = question_folder_of output_dir assess q;
          save_path = path_join question_folder ''index.html'';
          screenshot_path = path_join question_folder ''render.png'';
          st = st\<lparr>events := events st @ [LogDownloading (take 50 (q_title q)), Navigate (q_url q)]\<rparr>
      in case driver_get e (q_url q) (world st) of
           (Some exn, w) \<Rightarrow> (Some exn, st\<lparr>world := w\<rparr>)
         | (None, w) \<Rightarrow>
             (case download_images e question_folder (disk st) (expand_answer_panel e w) of
                (Inl exn, files, w) \<Rightarrow> (Some exn, st\<lparr>disk := files, world := w\<rparr>)
              | (Inr updated_html, files, w) \<Rightarrow>
                  (case save_html e question_folder save_path updated_html files of
                     (Some exn, files) \<Rightarrow> (Some exn, st\<lparr>disk := files, world := w\<rparr>)
                   | (None, files) \<Rightarrow>
                       (case take_full_page_screenshot e screenshot_path files w of
                          (ok, files, w) \<Rightarrow>
                            (None, st\<lparr>disk := files, world := w,
                                      completed_questions :=
                                        insert (question_id_of assess q)
                                          (completed_questions st)\<rparr>)))))"

definition question_body :: "'w env \<Rightarrow> string \<Rightarrow> assessment \<Rightarrow> question \<Rightarrow> 'w crawl_state
    \<Rightarrow> string option \<times> 'w crawl_state" where
  \<comment> \<open>the \<open>try\<close> block, lines 480 to 517\<close>
  "question_body e output_dir assess q st =
     (case resume_check (disk st) (question_folder_of output_dir assess q) of
        Inl exn \<Rightarrow> (Some exn, st)
      | Inr True \<Rightarrow>
          (None, st\<lparr>events := events st @ [LogSkip (take 50 (q_title q))],
                    completed_questions :=
                      insert (question_id_of assess q) (completed_questions st)\<rparr>)
      | Inr False \<Rightarrow> fetch_question e output_dir assess q st)"

definition process_question :: "'w env \<Rightarrow> string \<Rightarrow> assessment \<Rightarrow> 'w crawl_state \<Rightarrow> question
    \<Rightarrow> 'w crawl_state" where
  \<comment> \<open>the body of \<open>for q_idx, q in enumerate(questions_to_scrape, 1)\<close>, lines 472 to 521\<close>
  "process_question e output_dir assess st q =
     (if question_id_of assess q \<in> completed_questions st
      then st\<lparr>events := events st @ [LogSkipCompleted (take 50 (q_title q))]\<rparr>
      else (case question_body e output_dir assess q st of
              (None, st') \<Rightarrow> st'
            | (Some exn, st') \<Rightarrow>
                st'\<lparr>events := events st' @ [LogError (take 50 (q_title q)) exn]\<rparr>))"

definition question_loop :: "'w env \<Rightarrow> string \<Rightarrow> assessment \<Rightarrow> question list \<Rightarrow> 'w crawl_state
    \<Rightarrow> 'w crawl_state" where
  "question_loop e output_dir assess questions st =
     foldl (process_question e output_dir assess) st questions"



definition sample_env :: "nat env" where
  \<comment> \<open>a browser that counts its navigations; the first page load of a question raises, the
      later ones succeed, and the page is saved as a large HTML file\<close>
  "sample_env =
     \<lparr>current_url = (\<lambda>w. Inr ''https://us.prairielearn.com/pl/course_instance/1/assessments''),
      page_rows = (\<lambda>w. []),
      driver_get = (\<lambda>url w. (if w = 0 then Some ''TimeoutException'' else None, Suc w)),
      expand_answer_panel = (\<lambda>w. w),
      download_images = (\<lambda>folder files w. (Inr ''<html><body>Q</body></html>'', files, w)),
      save_html = (\<lambda>folder path html files.
                     (None, files(path \<mapsto> File (1000 + length html) (Some html)))),
      take_full_page_screenshot = (\<lambda>path files w. (True, files(path \<mapsto> File 4096 None), w))\<rparr>"

definition tiny_env :: "nat env" where
  \<comment> \<open>a browser whose page loads all succeed and whose pages are saved as they are, here a
      page of 27 characters\<close>
  "tiny_env =
     sample_env\<lparr>driver_get := (\<lambda>url w. (None, Suc w)),
                save_html := (\<lambda>folder path html files.
                                (None, files(path \<mapsto> File (length html) (Some html))))\<rparr>"

definition crawl_start :: "filesystem \<Rightarrow> nat crawl_state" where
  \<comment> \<open>the state in which the crawl of a run starts, over a given output tree\<close>
  "crawl_start files = \<lparr>completed_questions = {}, disk = files, world = 0, events = []\<rparr>"

definition sample_assessment :: assessment where
  "sample_assessment =
     \<lparr>a_week = ''Week_1'', a_name = ''HW1'', a_title = ''Homework 1'',
      a_url = ''https://us.prairielearn.com/pl/course_instance/1/assessment/5'',
      a_type = ''HW'', a_is_group = False\<rparr>"

definition sample_question :: "string \<Rightarrow> question" where
  "sample_question t =
     \<lparr>q_category = ''General'', q_title = t,
      q_url = ''https://us.prairielearn.com/pl/course_instance/1/instance_question/'' @ t\<rparr>"

definition complete_folder :: filesystem where
  \<comment> \<open>a complete question folder\<close>
  "complete_folder =
     [''out/Week_1/HW1/General/Q1/index.html'' \<mapsto> File 2048 (Some ''<!DOCTYPE html><html>''),
      ''out/Week_1/HW1/General/Q1/images'' \<mapsto> Dir [''fig.png''],
      ''out/Week_1/HW1/General/Q1/render.png'' \<mapsto> File 4096 None]"

definition truncated_folder :: filesystem where
  \<comment> \<open>a question folder whose page is too small\<close>
  "truncated_folder =
     [''out/Week_1/HW1/General/Q1/index.html'' \<mapsto> File 512 (Some ''<!DOCTYPE html><html>''),
      ''out/Week_1/HW1/General/Q1/images'' \<mapsto> Dir [''fig.png''],
      ''out/Week_1/HW1/General/Q1/render.png'' \<mapsto> File 4096 None]"

section \<open>The path rewriter: \<open>fix_html_file\<close> and \<open>fix_css_paths\<close>\<close>

definition quote :: char where
  \<comment> \<open>the double quote\<close>
  "quote = CHR 0x22"

definition attr_at :: "string \<Rightarrow> (string \<times> string) option" where
  \<comment> \<open>\<open>(src|href)="\<close> matched at the head of the text: the group and the text after the quote\<close>
  "attr_at s =
     (if prefix (''src='' @ [quote]) s then Some (''src'', drop 5 s)
      else if prefix (''href='' @ [quote]) s then Some (''href'', drop 6 s)
      else None)"

definition value_at :: "string \<Rightarrow> string \<Rightarrow> (string \<times> string) option" where
  \<comment> \<open>\<open>(DIR[^"]+)"\<close> matched at the head of the text: the group and the text after the
      closing quote\<close>
  "value_at dir r =
     (if prefix dir r
      then (let v = takeWhile (\<lambda>c. c \<noteq> quote) (drop (length dir) r);
                rest = dropWhile (\<lambda>c. c \<noteq> quote) (drop (length dir) r)
            in if v \<noteq> [] \<and> rest \<noteq> [] then Some (dir @ v, tl rest) else None)
      else None)"

definition path_match_at :: "string \<Rightarrow> string \<Rightarrow> (string \<times> string \<times> string) option" where
  \<comment> \<open>the pattern \<open>(src|href)="(DIR[^"]+)"\<close> matched at the head of the text: the two groups
      and the text after the match\<close>
  "path_match_at dir s =
     (case attr_at s of
        None \<Rightarrow> None
      | Some (attr, r) \<Rightarrow>
          (case value_at dir r of
             None \<Rightarrow> None
           | Some (path, rest) \<Rightarrow> Some (attr, path, rest)))"

function re_sub_path :: "string \<Rightarrow> string \<Rightarrow> string" where
  \<comment> \<open>\<open>re.sub\<close> of the pattern with the template \<open>\1="BASE\2"\<close>: matches are replaced from
      left to right, the search going on after each match\<close>
  "re_sub_path dir [] = []"
| "re_sub_path dir (c # cs) =
     (case path_match_at dir (c # cs) of
        Some (attr, path, rest) \<Rightarrow>
          attr @ ''='' @ [quote] @ prairielearn_base @ path @ [quote] @ re_sub_path dir rest
      | None \<Rightarrow> c # re_sub_path dir cs)"
  by pat_completeness auto
termination
proof (relation "measure (\<lambda>(dir, s). length s)")
  show "wf (measure (\<lambda>(dir, s). length s))"
    by simp
next
  fix dir :: string and c cs x2 attr y path rest
  assume m: "path_match_at dir (c # cs) = Some x2" and x: "(attr, y) = x2" and y: "(path, rest) = y"
  have attr_shorter: "length r < length s" if "attr_at s = Some (a, r)" for s a r
    using that by (auto simp: attr_at_def prefix_def split: if_splits)
  have value_shorter: "length rest' \<le> length r" if "value_at dir r = Some (p, rest')" for r p rest'
  proof -
    from that have "rest' = tl (dropWhile (\<lambda>c. c \<noteq> quote) (drop (length dir) r))"
      by (auto simp: value_at_def Let_def split: if_splits)
    also have "length \<dots> \<le> length (dropWhile (\<lambda>c. c \<noteq> quote) (drop (length dir) r))"
      by simp
    also have "\<dots> \<le> length (drop (length dir) r)"
      by (rule length_dropWhile_le)
    also have "\<dots> \<le> length r"
      by simp
    finally show ?thesis .
  qed
  from m x y obtain r where "attr_at (c # cs) = Some (attr, r)" "value_at dir r = Some (path, rest)"
    by (auto simp: path_match_at_def split: option.splits)
  from attr_shorter[OF this(1)] value_shorter[OF this(2)]
  show "((dir, rest), (dir, c # cs)) \<in> measure (\<lambda>(dir, s). length s)"
    by simp
next
  fix dir :: string and c cs
  show "((dir, cs), (dir, c # cs)) \<in> measure (\<lambda>(dir, s). length s)"
    by simp
qed

definition fix_paths :: "string \<Rightarrow> string" where
  \<comment> \<open>the two substitutions of \<open>fix_html_file\<close> and of \<open>fix_css_paths\<close>, in their order\<close>
  "fix_paths content = re_sub_path ''/pl/'' (re_sub_path ''/assets/'' content)"

definition utf8_size :: "string \<Rightarrow> nat" where
  \<comment> \<open>the number of bytes of the UTF-8 encoding: two for a code point above 127\<close>
  "utf8_size content = sum_list (map (\<lambda>c. if (of_char c :: nat) < 128 then 1 else 2) content)"

definition fix_html_file :: "(string \<Rightarrow> bool) \<Rightarrow> filesystem \<Rightarrow> string \<Rightarrow> bool \<times> filesystem" where
  \<comment> \<open>The first argument tells whether opening the path for writing succeeds. A file that
      cannot be read or written makes the function return \<open>False\<close>.\<close>
  "fix_html_file writable files filepath =
     (case files filepath of
        Some (File fsize (Some original_content)) \<Rightarrow>
          (let content = fix_paths original_content
           in if content \<noteq> original_content
              then (if writable filepath
                    then (True, files(filepath \<mapsto> File (utf8_size content) (Some content)))
                    else (False, files))
              else (False, files))
      | _ \<Rightarrow> (False, files))"

text \<open>
  The runs of a text between its double quotes, and the texts on which the rewriter is
  shown to be idempotent: no run that begins like a rewritten path ends like the opening of
  an attribute.
\<close>

definition quote_runs :: "string \<Rightarrow> string list" where
  "quote_runs content = split_on quote content"

definition ends_attr :: "string \<Rightarrow> bool" where
  "ends_attr u = (suffix ''src='' u \<or> suffix ''href='' u)"

definition well_quoted :: "string \<Rightarrow> bool" where
  "well_quoted content =
     (\<forall>w \<in> set (quote_runs content). prefix ''/assets/'' w \<or> prefix ''/pl/'' w \<longrightarrow> \<not> ends_attr w)"

definition sample_page :: string where
  "sample_page =
     ''<link href='' @ [quote] @ ''/assets/a.css'' @ [quote] @
     ''><img src='' @ [quote] @ ''/pl/x.png'' @ [quote] @ ''>''"

definition overlapping_page :: string where
  \<comment> \<open>a paragraph whose text has an unbalanced quote, before a link\<close>
  "overlapping_page =
     ''<p>src='' @ [quote] @ ''/assets/a</p><a href='' @ [quote] @ ''/assets/y'' @ [quote] @ ''>''"

section \<open>Auxiliary definitions for the proofs and sample data\<close>



definition sample_digest :: "string \<Rightarrow> string" where
  \<comment> \<open>a stand-in digest for the sample runs: the MD5 of the empty text, for every text\<close>
  "sample_digest text = ''d41d8cd98f00b204e9800998ecf8427e''"

definition week_header :: "string \<Rightarrow> row" where
  "week_header week_title = \<lparr>header_th = Some week_title, badge = None, link = None\<rparr>"

definition listing_row :: "string \<Rightarrow> string \<Rightarrow> string \<Rightarrow> bool \<Rightarrow> row" where
  "listing_row badge_text h t g =
     \<lparr>header_th = None, badge = Some badge_text,
      link = Some \<lparr>href = h, link_text = t, users_icon = g\<rparr>\<rparr>"

definition sample_types :: "(string \<times> module_info) list" where
  "sample_types =
     [(''LAB'', \<lparr>mt_count = 1, mt_is_group = False, mt_sample_title = ''Lab 2''\<rparr>),
      (''HW'', \<lparr>mt_count = 2, mt_is_group = False, mt_sample_title = ''Homework 1''\<rparr>),
      (''GA'', \<lparr>mt_count = 1, mt_is_group = True, mt_sample_title = ''Group Activity 1''\<rparr>)]"

fun join_runs :: "string list \<Rightarrow> string" where
  "join_runs [] = []"
| "join_runs [r] = r"
| "join_runs (r # r' # rs) = r @ quote # join_runs (r' # rs)"

definition qual_run :: "string \<Rightarrow> string \<Rightarrow> bool" where
  "qual_run dir w = (prefix dir w \<and> length dir < length w)"

fun rewrite_runs :: "string \<Rightarrow> string list \<Rightarrow> string list" where
  "rewrite_runs dir (u # w # x # xs) =
     (if ends_attr u \<and> qual_run dir w
      then u # (prairielearn_base @ w) # rewrite_runs dir (x # xs)
      else u # rewrite_runs dir (w # x # xs))"
| "rewrite_runs dir rs = rs"

definition is_dir :: "string \<Rightarrow> bool" where
  "is_dir d = (d = ''/assets/'' \<or> d = ''/pl/'')"

definition runs_ok :: "string list \<Rightarrow> bool" where
  "runs_ok rs = (\<forall>w \<in> set rs. prefix ''/assets/'' w \<or> prefix ''/pl/'' w \<longrightarrow> \<not> ends_attr w)"

definition qfree :: "string list \<Rightarrow> bool" where
  "qfree rs = (rs \<noteq> [] \<and> (\<forall>r \<in> set rs. quote \<notin> set r))"

section \<open>Properties of \<open>clean_filename\<close>\<close>










section \<open>Properties of \<open>validate_html_file\<close>\<close>

text \<open>
  Claim C3, as the code has it: \<open>validate_html_file\<close> returns true exactly when the path
  is a file of at least 1000 bytes that can be read and whose first 500 characters, in
  lower case, contain \<open><!doctype html>\<close> or \<open><html\<close>. A missing path, a directory, a
  smaller file and a read error all give false.
\<close>

theorem validate_html_file_iff:
  "validate_html_file fs filepath \<longleftrightarrow>
     (\<exists>fsize t. fs filepath = Some (File fsize (Some t)) \<and> 1000 \<le> fsize
        \<and> (contains ''<!doctype html>'' (lower (take 500 t))
           \<or> contains ''<html'' (lower (take 500 t))))"
  by (auto simp: validate_html_file_def Let_def split: option.splits node.splits)

theorem validate_html_file_iff_witness:
  "validate_html_file [''q/index.html'' \<mapsto> File 2048 (Some ''<!DOCTYPE html><HTML lang=en>'')]
     ''q/index.html''
   \<and> \<not> validate_html_file [''q/index.html'' \<mapsto> File 999 (Some ''<!DOCTYPE html><HTML lang=en>'')]
     ''q/index.html''
   \<and> \<not> validate_html_file [''q/index.html'' \<mapsto> File 2048 None] ''q/index.html''
   \<and> \<not> validate_html_file [''q/index.html'' \<mapsto> File 2048 (Some ''<p>Not Found</p>'')]
     ''q/index.html''
   \<and> \<not> validate_html_file Map.empty ''q/index.html''"
proof -
  have a: "contains ''<!doctype html>'' (lower (take 500 ''<!DOCTYPE html><HTML lang=en>''))"
    by code_simp
  have b: "\<not> contains ''<!doctype html>'' (lower (take 500 ''<p>Not Found</p>''))"
    "\<not> contains ''<html'' (lower (take 500 ''<p>Not Found</p>''))"
    by code_simp+
  show ?thesis
    using a b
    by (simp add: validate_html_file_iff
          [of "[''q/index.html'' \<mapsto> File 2048 (Some ''<!DOCTYPE html><HTML lang=en>'')]"]
          validate_html_file_iff
          [of "[''q/index.html'' \<mapsto> File 999 (Some ''<!DOCTYPE html><HTML lang=en>'')]"]
          validate_html_file_iff [of "[''q/index.html'' \<mapsto> File 2048 None]"]
          validate_html_file_iff
          [of "[''q/index.html'' \<mapsto> File 2048 (Some ''<p>Not Found</p>'')]"]
          validate_html_file_iff [of Map.empty])
qed

text \<open>
  Claim C3 as stated asks for a size that exceeds 1000 bytes; the code rejects only sizes
  below 1000, so a file of exactly 1000 bytes with the marker is valid.
\<close>

theorem validate_html_file_size_counterexample:
  "validate_html_file [''q/index.html'' \<mapsto> File 1000 (Some ''<html><body></body></html>'')]
     ''q/index.html''
   \<and> \<not> (1000::nat) < 1000"
proof -
  have "contains ''<html'' (lower (take 500 ''<html><body></body></html>''))"
    by code_simp
  then show ?thesis
    by (simp add: validate_html_file_def)
qed

section \<open>Properties of module discovery\<close>

lemma scan_rows_append:
  "scan_rows md5_hexdigest st (xs @ ys)
   = scan_rows md5_hexdigest (scan_rows md5_hexdigest st xs) ys"
proof (induction xs arbitrary: st)
  case Nil
  show ?case
    by simp
next
  case (Cons r xs)
  show ?case
  proof (cases "fatal st = None")
    case True
    with Cons show ?thesis
      by simp
  next
    case False
    then have "scan_rows md5_hexdigest st ys = st"
      by (cases ys) simp_all
    with False show ?thesis
      by simp
  qed
qed

lemma scan_row_idle:
  assumes "current_week_num st = None" "\<not> valid_week_header r"
  shows "module_types (scan_row md5_hexdigest st r) = module_types st
       \<and> temp_assessments (scan_row md5_hexdigest st r) = temp_assessments st
       \<and> current_week_num (scan_row md5_hexdigest st r) = None"
  using assms
  by (auto simp: scan_row_def valid_week_header_def split: option.splits)

lemma scan_rows_idle:
  assumes "current_week_num st = None" "\<forall>r\<in>set rs. \<not> valid_week_header r"
  shows "module_types (scan_rows md5_hexdigest st rs) = module_types st
       \<and> temp_assessments (scan_rows md5_hexdigest st rs) = temp_assessments st
       \<and> current_week_num (scan_rows md5_hexdigest st rs) = None"
  using assms
proof (induction rs arbitrary: st)
  case Nil
  then show ?case
    by simp
next
  case (Cons r rs)
  from Cons.prems have idle: "module_types (scan_row md5_hexdigest st r) = module_types st
       \<and> temp_assessments (scan_row md5_hexdigest st r) = temp_assessments st
       \<and> current_week_num (scan_row md5_hexdigest st r) = None"
    by (intro scan_row_idle) simp_all
  show ?case
  proof (cases "fatal st = None")
    case True
    from idle Cons.prems have "module_types (scan_rows md5_hexdigest (scan_row md5_hexdigest st r) rs)
        = module_types (scan_row md5_hexdigest st r)
      \<and> temp_assessments (scan_rows md5_hexdigest (scan_row md5_hexdigest st r) rs)
        = temp_assessments (scan_row md5_hexdigest st r)
      \<and> current_week_num (scan_rows md5_hexdigest (scan_row md5_hexdigest st r) rs) = None"
      by (intro Cons.IH) simp_all
    with idle True show ?thesis
      by simp
  next
    case False
    with Cons.prems show ?thesis
      by simp
  qed
qed

lemma scan_row_reset:
  assumes "header_th hdr = Some week_title" "week_search week_title = Some digits"
    "py_int digits = Some n" "\<not> (1 \<le> n \<and> n \<le> 14)"
  shows "scan_row md5_hexdigest st hdr = st\<lparr>current_week_num := None\<rparr>"
  using assms by (simp add: scan_row_def)

text \<open>
  Claim C5. Whatever rows came before, a header row whose week number is outside 1 to 14
  and the rows after it, as long as none of them is a header with a week number in 1 to
  14, add nothing to the aggregates and to the candidate list: both are those reached
  before the header. When the loop reaches the header, the cursor is \<open>None\<close> after it and
  after each of these rows.
\<close>

theorem week_cursor_reset:
  assumes "header_th hdr = Some week_title" and "week_search week_title = Some digits"
    and "py_int digits = Some n" and "\<not> (1 \<le> n \<and> n \<le> 14)"
    and "\<forall>r\<in>set later. \<not> valid_week_header r"
  shows "module_types (discover md5_hexdigest (before @ hdr # later))
           = module_types (discover md5_hexdigest before)
       \<and> temp_assessments (discover md5_hexdigest (before @ hdr # later))
           = temp_assessments (discover md5_hexdigest before)
       \<and> (fatal (discover md5_hexdigest before) = None
          \<longrightarrow> current_week_num (discover md5_hexdigest (before @ hdr # later)) = None)"
proof -
  let ?st = "discover md5_hexdigest before"
  have split: "discover md5_hexdigest (before @ hdr # later)
      = scan_rows md5_hexdigest ?st (hdr # later)"
    by (simp add: discover_def scan_rows_append)
  show ?thesis
  proof (cases "fatal ?st = None")
    case False
    then show ?thesis
      unfolding split by auto
  next
    case True
    have reset: "scan_row md5_hexdigest ?st hdr = ?st\<lparr>current_week_num := None\<rparr>"
      using assms(1-4) by (rule scan_row_reset)
    have "module_types (scan_rows md5_hexdigest (?st\<lparr>current_week_num := None\<rparr>) later)
          = module_types (?st\<lparr>current_week_num := None\<rparr>)
        \<and> temp_assessments (scan_rows md5_hexdigest (?st\<lparr>current_week_num := None\<rparr>) later)
          = temp_assessments (?st\<lparr>current_week_num := None\<rparr>)
        \<and> current_week_num (scan_rows md5_hexdigest (?st\<lparr>current_week_num := None\<rparr>) later)
          = None"
      using assms(5) by (intro scan_rows_idle) simp_all
    with True reset show ?thesis
      unfolding split by simp
  qed
qed

theorem week_cursor_reset_witness:
  "header_th (week_header ''Week 15'') = Some ''Week 15''
   \<and> week_search ''Week 15'' = Some ''15''
   \<and> py_int ''15'' = Some 15
   \<and> \<not> (1 \<le> (15::int) \<and> (15::int) \<le> 14)
   \<and> list_all (\<lambda>r. \<not> valid_week_header r)
        [listing_row ''HW9'' ''/pl/course_instance/1/assessment/9'' ''Homework 9'' False,
         week_header ''Exams'',
         listing_row ''E1'' ''/pl/course_instance/1/assessment/11'' ''Exam 1'' False]
   \<and> fatal (discover sample_digest
        [week_header ''Week 1'',
         listing_row ''LAB2'' ''/pl/course_instance/1/assessment/7'' ''Lab 2'' False]) = None
   \<and> map a_name (temp_assessments (discover sample_digest
        ([week_header ''Week 1'',
          listing_row ''LAB2'' ''/pl/course_instance/1/assessment/7'' ''Lab 2'' False]
         @ week_header ''Week 15''
         # [listing_row ''HW9'' ''/pl/course_instance/1/assessment/9'' ''Homework 9'' False,
            week_header ''Exams'',
            listing_row ''E1'' ''/pl/course_instance/1/assessment/11'' ''Exam 1'' False])))
     = [''LAB2'']
   \<and> current_week_num (discover sample_digest
        ([week_header ''Week 1'',
          listing_row ''LAB2'' ''/pl/course_instance/1/assessment/7'' ''Lab 2'' False]
         @ week_header ''Week 15''
         # [listing_row ''HW9'' ''/pl/course_instance/1/assessment/9'' ''Homework 9'' False,
            week_header ''Exams'',
            listing_row ''E1'' ''/pl/course_instance/1/assessment/11'' ''Exam 1'' False]))
     = None"
proof -
  let ?before = "[week_header ''Week 1'',
          listing_row ''LAB2'' ''/pl/course_instance/1/assessment/7'' ''Lab 2'' False]"
  let ?later = "[listing_row ''HW9'' ''/pl/course_instance/1/assessment/9'' ''Homework 9'' False,
                week_header ''Exams'',
                listing_row ''E1'' ''/pl/course_instance/1/assessment/11'' ''Exam 1'' False]"
  have h1: "header_th (week_header ''Week 15'') = Some ''Week 15''"
    by (simp add: week_header_def)
  have h2: "week_search ''Week 15'' = Some ''15''"
    by code_simp
  have h3: "py_int ''15'' = Some 15"
    by code_simp
  have h4: "\<not> (1 \<le> (15::int) \<and> (15::int) \<le> 14)"
    by simp
  have h5: "\<forall>r\<in>set ?later. \<not> valid_week_header r"
    by code_simp
  have f: "fatal (discover sample_digest ?before) = None"
    by code_simp
  have before: "map a_name (temp_assessments (discover sample_digest ?before)) = [''LAB2'']"
    by code_simp
  from week_cursor_reset[OF h1 h2 h3 h4 h5, of sample_digest ?before] before f
  have "map a_name (temp_assessments (discover sample_digest
          (?before @ week_header ''Week 15'' # ?later))) = [''LAB2'']
      \<and> current_week_num (discover sample_digest
          (?before @ week_header ''Week 15'' # ?later)) = None"
    by simp
  with h1 h2 h3 h5 f show ?thesis
    by (simp add: list_all_iff)
qed












text \<open>
  Claim C6. A qualifying row (a week is active, the row has a badge with an upper-case
  prefix and a link to an assessment) whose link carries the group icon appends one
  candidate, with group flag true, whatever the badge. No candidate with group flag true is
  among the assessments the crawl processes, whatever the selection, and no type whose
  aggregate has group flag true is among the available types.
\<close>

theorem group_rows_excluded:
  "(\<forall>w b l k. current_week_num st = Some w \<and> header_th r = None \<and> badge r = Some b
        \<and> link r = Some l \<and> href l \<noteq> []
        \<and> (contains ''/assessment/'' (href l) \<or> contains ''/assessment_instance/'' (href l))
        \<and> type_match b = Some k \<and> users_icon l
      \<longrightarrow> (\<exists>c. temp_assessments (scan_row md5_hexdigest st r) = temp_assessments st @ [c]
              \<and> a_is_group c \<and> a_type c = k \<and> a_title c = link_text l))
   \<and> (\<forall>a \<in> set (assessments_to_process selected_types
                    (temp_assessments (discover md5_hexdigest all_rows))). \<not> a_is_group a)
   \<and> (\<forall>(k, v) \<in> set (available_types (module_types (discover md5_hexdigest all_rows))).
        \<not> mt_is_group v)"
proof -
  have "\<exists>c. temp_assessments (scan_row md5_hexdigest st r) = temp_assessments st @ [c]
              \<and> a_is_group c \<and> a_type c = k \<and> a_title c = link_text l"
    if "current_week_num st = Some w" "header_th r = None" "badge r = Some b"
      "link r = Some l" "href l \<noteq> []"
      "contains ''/assessment/'' (href l) \<or> contains ''/assessment_instance/'' (href l)"
      "type_match b = Some k" "users_icon l" for w b l k
    using that by (auto simp: scan_row_def record_row_def Let_def)
  then show ?thesis
    by (auto simp: assessments_to_process_def available_types_def)
qed

theorem group_rows_excluded_witness:
  "(\<exists>c. temp_assessments (scan_row sample_digest (initial_scan\<lparr>current_week_num := Some 3\<rparr>)
            (listing_row ''HW4'' ''/pl/course_instance/1/assessment/8'' ''Team Homework'' True))
          = temp_assessments (initial_scan\<lparr>current_week_num := Some 3\<rparr>) @ [c]
        \<and> a_is_group c \<and> a_type c = ''HW'' \<and> a_title c = ''Team Homework'')
   \<and> map a_name (temp_assessments (discover sample_digest
        [week_header ''Week 1'',
         listing_row ''HW1'' ''/pl/course_instance/1/assessment/5'' ''Homework 1'' False,
         listing_row ''HW4'' ''/pl/course_instance/1/assessment/8'' ''Team Homework'' True,
         listing_row ''GA1'' ''/pl/course_instance/1/assessment/2'' ''Group Activity 1'' True]))
     = [''HW1'', ''HW4'', ''GA1'']
   \<and> map a_name (assessments_to_process {''HW'', ''GA''} (temp_assessments (discover sample_digest
        [week_header ''Week 1'',
         listing_row ''HW1'' ''/pl/course_instance/1/assessment/5'' ''Homework 1'' False,
         listing_row ''HW4'' ''/pl/course_instance/1/assessment/8'' ''Team Homework'' True,
         listing_row ''GA1'' ''/pl/course_instance/1/assessment/2'' ''Group Activity 1'' True])))
     = [''HW1'']
   \<and> list_all (\<lambda>a. \<not> a_is_group a)
        (assessments_to_process {''HW'', ''GA''} (temp_assessments (discover sample_digest
        [week_header ''Week 1'',
         listing_row ''HW1'' ''/pl/course_instance/1/assessment/5'' ''Homework 1'' False,
         listing_row ''HW4'' ''/pl/course_instance/1/assessment/8'' ''Team Homework'' True,
         listing_row ''GA1'' ''/pl/course_instance/1/assessment/2'' ''Group Activity 1'' True])))
   \<and> map fst (available_types (module_types (discover sample_digest
        [week_header ''Week 1'',
         listing_row ''HW1'' ''/pl/course_instance/1/assessment/5'' ''Homework 1'' False,
         listing_row ''HW4'' ''/pl/course_instance/1/assessment/8'' ''Team Homework'' True,
         listing_row ''GA1'' ''/pl/course_instance/1/assessment/2'' ''Group Activity 1'' True])))
     = [''HW'']"
proof -
  let ?row = "listing_row ''HW4'' ''/pl/course_instance/1/assessment/8'' ''Team Homework'' True"
  let ?l = "\<lparr>href = ''/pl/course_instance/1/assessment/8'', link_text = ''Team Homework'',
             users_icon = True\<rparr>"
  let ?rows = "[week_header ''Week 1'',
         listing_row ''HW1'' ''/pl/course_instance/1/assessment/5'' ''Homework 1'' False,
         listing_row ''HW4'' ''/pl/course_instance/1/assessment/8'' ''Team Homework'' True,
         listing_row ''GA1'' ''/pl/course_instance/1/assessment/2'' ''Group Activity 1'' True]"
  have q: "current_week_num (initial_scan\<lparr>current_week_num := Some 3\<rparr>) = Some 3"
    "header_th ?row = None" "badge ?row = Some ''HW4''" "link ?row = Some ?l"
    "href ?l \<noteq> []" "users_icon ?l" "link_text ?l = ''Team Homework''"
    by (simp_all add: listing_row_def)
  have c: "contains ''/assessment/'' (href ?l)"
    by code_simp
  have t: "type_match ''HW4'' = Some ''HW''"
    by code_simp
  have n: "map a_name (temp_assessments (discover sample_digest ?rows)) = [''HW1'', ''HW4'', ''GA1'']"
    by code_simp
  have p: "map a_name (assessments_to_process {''HW'', ''GA''}
             (temp_assessments (discover sample_digest ?rows))) = [''HW1'']"
    by code_simp
  have v: "map fst (available_types (module_types (discover sample_digest ?rows))) = [''HW'']"
    by code_simp
  note inst = group_rows_excluded[of "initial_scan\<lparr>current_week_num := Some 3\<rparr>" ?row
      sample_digest "{''HW'', ''GA''}" ?rows]
  from inst q c t have "\<exists>c. temp_assessments (scan_row sample_digest
            (initial_scan\<lparr>current_week_num := Some 3\<rparr>) ?row)
          = temp_assessments (initial_scan\<lparr>current_week_num := Some 3\<rparr>) @ [c]
        \<and> a_is_group c \<and> a_type c = ''HW'' \<and> a_title c = ''Team Homework''"
    by metis
  moreover from inst have "list_all (\<lambda>a. \<not> a_is_group a)
        (assessments_to_process {''HW'', ''GA''} (temp_assessments (discover sample_digest ?rows)))"
    unfolding list_all_iff by blast
  ultimately show ?thesis
    using n p v by blast
qed

section \<open>Properties of the selection\<close>

lemma those_None_iff: "those xs = None \<longleftrightarrow> None \<in> set xs"
  by (induction xs) (auto split: option.splits)

lemma type_list_set: "set (type_list_of mts) = fst ` set (available_types mts)"
  by (simp add: type_list_of_def)

lemma type_list_length: "length (type_list_of mts) = length (available_types mts)"
  by (simp add: type_list_of_def)

lemma parse_selection_subset:
  assumes "parse_selection type_list user_input = Inr S"
  shows "S \<subseteq> set type_list"
proof (cases "user_input = ''all''")
  case True
  with assms show ?thesis
    by (simp add: parse_selection_def)
next
  case False
  with assms obtain indices where
    S: "S = (\<lambda>i. type_list ! nat (i - 1)) `
              set (filter (\<lambda>i. 1 \<le> i \<and> i \<le> int (length type_list)) indices)"
    by (auto simp: parse_selection_def split: option.splits)
  show ?thesis
  proof
    fix x
    assume "x \<in> S"
    with S obtain i where i: "1 \<le> i" "i \<le> int (length type_list)"
      and x: "x = type_list ! nat (i - 1)"
      by auto
    from i have "nat (i - 1) < length type_list"
      by linarith
    with x show "x \<in> set type_list"
      by simp
  qed
qed

lemma select_types_Inr:
  assumes "select_types mts typed = Inr S"
  shows "S \<noteq> {} \<and> S \<subseteq> fst ` set (available_types mts)"
proof -
  from assms have p: "parse_selection (type_list_of mts) (lower (strip typed)) = Inr S"
    and "S \<noteq> {}"
    by (auto simp: select_types_def Let_def split: if_splits sum.splits)
  from parse_selection_subset[OF p] \<open>S \<noteq> {}\<close> show ?thesis
    by (simp add: type_list_set)
qed

lemma parse_selection_invalid:
  assumes "user_input \<noteq> ''all''" "tok \<in> set (split_comma user_input)"
    "py_int (strip tok) = None"
  shows "parse_selection type_list user_input = Inl InvalidSelection"
proof -
  from assms(2,3) have "None \<in> set (map (\<lambda>x. py_int (strip x)) (split_comma user_input))"
    by force
  then have "those (map (\<lambda>x. py_int (strip x)) (split_comma user_input)) = None"
    by (simp only: those_None_iff)
  with assms(1) show ?thesis
    by (simp add: parse_selection_def)
qed

lemma select_types_invalid:
  assumes "lower (strip typed) \<noteq> ''all''" "tok \<in> set (split_comma (lower (strip typed)))"
    "py_int (strip tok) = None"
  shows "select_types mts typed
    = (if available_types mts = [] then Inl NoDownloadableTypes else Inl InvalidSelection)"
  using parse_selection_invalid[OF assms] by (simp add: select_types_def)

lemma parse_99:
  "parse_selection type_list ''99''
   = Inr (if 99 \<le> length type_list then {type_list ! 98} else {})"
proof -
  have "those (map (\<lambda>x. py_int (strip x)) (split_comma ''99'')) = Some [99]"
    by code_simp
  then show ?thesis
    by (simp add: parse_selection_def)
qed

lemma select_99:
  assumes "length (available_types mts) < 99"
  shows "select_types mts ''99''
    = (if available_types mts = [] then Inl NoDownloadableTypes else Inl NoTypesSelected)"
proof -
  have "lower (strip ''99'') = ''99''"
    by code_simp
  with assms show ?thesis
    by (simp add: select_types_def parse_99 type_list_length)
qed

lemma select_types_indices:
  assumes "lower (strip typed) \<noteq> ''all''"
    "those (map (\<lambda>x. py_int (strip x)) (split_comma (lower (strip typed)))) = Some indices"
    "available_types mts \<noteq> []"
  shows "select_types mts typed =
    (let S = (\<lambda>i. type_list_of mts ! nat (i - 1)) `
               {i \<in> set indices. 1 \<le> i \<and> i \<le> int (length (available_types mts))}
     in if S = {} then Inl NoTypesSelected else Inr S)"
  using assms by (simp add: select_types_def parse_selection_def Let_def type_list_length)

text \<open>
  Claim C1, as the code has it. For every aggregate and every typed expression the
  selection either returns an error, and then \<open>main\<close> returns before the crawl, or a
  non-empty set of available type keys. An expression other than \<open>all\<close> with a token that
  \<open>int\<close> rejects is an error. An expression whose tokens all parse selects exactly the
  entries of the sorted type list at its in-range indices, out-of-range indices being
  dropped by the guard \<open>1 <= i <= len(type_list)\<close>, and is an error when no index is in
  range; so \<open>99\<close> alone is an error when there are fewer than 99 available types.
\<close>

theorem selection_resolves_or_rejects:
  "(\<forall>S. select_types mts typed = Inr S \<longrightarrow> S \<noteq> {} \<and> S \<subseteq> fst ` set (available_types mts))
   \<and> (\<forall>tok. lower (strip typed) \<noteq> ''all'' \<and> tok \<in> set (split_comma (lower (strip typed)))
            \<and> py_int (strip tok) = None
          \<longrightarrow> isl (select_types mts typed))
   \<and> (\<forall>indices. lower (strip typed) \<noteq> ''all'' \<and> available_types mts \<noteq> []
            \<and> those (map (\<lambda>x. py_int (strip x)) (split_comma (lower (strip typed))))
                = Some indices
          \<longrightarrow> select_types mts typed =
                (let S = (\<lambda>i. type_list_of mts ! nat (i - 1)) `
                           {i \<in> set indices. 1 \<le> i \<and> i \<le> int (length (available_types mts))}
                 in if S = {} then Inl NoTypesSelected else Inr S))
   \<and> (length (available_types mts) < 99 \<longrightarrow> isl (select_types mts ''99''))
   \<and> (isl (select_types (module_types (discover md5_hexdigest all_rows)) typed)
          \<longrightarrow> isl (plan md5_hexdigest all_rows typed))"
proof -
  have a: "\<forall>S. select_types mts typed = Inr S \<longrightarrow> S \<noteq> {} \<and> S \<subseteq> fst ` set (available_types mts)"
    using select_types_Inr by blast
  have b: "\<forall>tok. lower (strip typed) \<noteq> ''all'' \<and> tok \<in> set (split_comma (lower (strip typed)))
            \<and> py_int (strip tok) = None
          \<longrightarrow> isl (select_types mts typed)"
    by (auto simp: select_types_invalid)
  have c: "\<forall>indices. lower (strip typed) \<noteq> ''all'' \<and> available_types mts \<noteq> []
            \<and> those (map (\<lambda>x. py_int (strip x)) (split_comma (lower (strip typed))))
                = Some indices
          \<longrightarrow> select_types mts typed =
                (let S = (\<lambda>i. type_list_of mts ! nat (i - 1)) `
                           {i \<in> set indices. 1 \<le> i \<and> i \<le> int (length (available_types mts))}
                 in if S = {} then Inl NoTypesSelected else Inr S)"
    using select_types_indices by blast
  have d: "length (available_types mts) < 99 \<longrightarrow> isl (select_types mts ''99'')"
    by (simp add: select_99)
  have e: "isl (select_types (module_types (discover md5_hexdigest all_rows)) typed)
          \<longrightarrow> isl (plan md5_hexdigest all_rows typed)"
    by (auto simp: plan_def Let_def split: option.splits sum.splits)
  from a b c d e show ?thesis
    by blast
qed

theorem selection_resolves_or_rejects_witness:
  "lower (strip ''1,abc'') \<noteq> ''all'' \<and> ''abc'' \<in> set (split_comma (lower (strip ''1,abc'')))
   \<and> py_int (strip ''abc'') = None
   \<and> isl (select_types sample_types ''1,abc'')
   \<and> select_types sample_types ''2, 1'' = Inr {''HW'', ''LAB''}
   \<and> {''HW'', ''LAB''} \<subseteq> fst ` set (available_types sample_types)"
proof -
  have h: "lower (strip ''1,abc'') \<noteq> ''all''"
    "''abc'' \<in> set (split_comma (lower (strip ''1,abc'')))"
    "py_int (strip ''abc'') = None"
    by code_simp+
  have s: "select_types sample_types ''2, 1'' = Inr {''HW'', ''LAB''}"
    by code_simp
  note inst = selection_resolves_or_rejects[of sample_types _ sample_digest "[]"]
  from inst[of "''1,abc''"] h have "isl (select_types sample_types ''1,abc'')"
    by blast
  moreover from inst[of "''2, 1''"] s
  have "{''HW'', ''LAB''} \<subseteq> fst ` set (available_types sample_types)"
    by blast
  ultimately show ?thesis
    using h s by blast
qed

text \<open>
  Claim C1 as stated has an out-of-range index rejected rather than a partial selection
  applied. With two available types the expression \<open>1,99\<close> is accepted: index 99 is dropped
  and the first type of the sorted list is selected.
\<close>

theorem selection_partial_counterexample:
  "select_types sample_types ''1,99'' = Inr {''HW''}
   \<and> type_list_of sample_types = [''HW'', ''LAB'']
   \<and> \<not> (99::int) \<le> int (length (type_list_of sample_types))"
  by code_simp

section \<open>Properties of \<open>download_with_retry\<close>\<close>

lemma attempts_step:
  "\<not> final (get a) \<Longrightarrow>
   attempts get m a (Suc rem) =
     (fst (attempts get m (Suc a) rem), attempt_events get m a @ snd (attempts get m (Suc a) rem))"
  by (auto simp: final_def attempt_events_def split: response.splits prod.splits)

lemma attempts_stop:
  "final (get a) \<Longrightarrow>
   attempts get m a (Suc rem) =
     ((case get a of Response c b \<Rightarrow> if c = 200 then Some b else None | _ \<Rightarrow> None),
      attempt_events get m a)"
  by (auto simp: final_def attempt_events_def split: response.splits)

lemma attempts_no_final:
  "(\<forall>j. a \<le> j \<and> j < a + rem \<longrightarrow> \<not> final (get j)) \<Longrightarrow>
   attempts get m a rem = (None, concat (map (attempt_events get m) [a..<a + rem]))"
proof (induction rem arbitrary: a)
  case 0
  then show ?case by simp
next
  case (Suc rem)
  from Suc.prems have nf: "\<not> final (get a)" by simp
  from Suc.prems have "\<forall>j. Suc a \<le> j \<and> j < Suc a + rem \<longrightarrow> \<not> final (get j)" by simp
  from Suc.IH[OF this]
  have ih: "attempts get m (Suc a) rem
      = (None, concat (map (attempt_events get m) [Suc a..<Suc a + rem]))" .
  have up: "[a..<a + Suc rem] = a # [Suc a..<Suc a + rem]"
    by (simp add: upt_conv_Cons)
  show ?case
    using nf ih unfolding up by (simp add: attempts_step del: attempts.simps)
qed

lemma attempts_final:
  "a \<le> k \<Longrightarrow> k < a + rem \<Longrightarrow> final (get k) \<Longrightarrow> (\<forall>j. a \<le> j \<and> j < k \<longrightarrow> \<not> final (get j)) \<Longrightarrow>
   attempts get m a rem =
     ((case get k of Response c b \<Rightarrow> if c = 200 then Some b else None | _ \<Rightarrow> None),
      concat (map (attempt_events get m) [a..<Suc k]))"
proof (induction rem arbitrary: a)
  case 0
  then show ?case by simp
next
  case (Suc rem)
  show ?case
  proof (cases "a = k")
    case True
    with Suc.prems(3) attempts_stop[of get k m rem] show ?thesis
      by (simp del: attempts.simps)
  next
    case False
    with Suc.prems have lt: "Suc a \<le> k" "k < Suc a + rem" and nf: "\<not> final (get a)"
      and rest: "\<forall>j. Suc a \<le> j \<and> j < k \<longrightarrow> \<not> final (get j)"
      by auto
    from Suc.IH[OF lt Suc.prems(3) rest]
    have ih: "attempts get m (Suc a) rem =
       ((case get k of Response c b \<Rightarrow> if c = 200 then Some b else None | _ \<Rightarrow> None),
        concat (map (attempt_events get m) [Suc a..<Suc k]))" .
    have up: "[a..<Suc k] = a # [Suc a..<Suc k]"
      using lt by (simp add: upt_conv_Cons)
    show ?thesis
      using nf ih unfolding up by (simp add: attempts_step del: attempts.simps)
  qed
qed

lemma fetches_attempt_events:
  "length (filter is_fetch (concat (map (attempt_events get m) js))) = length js"
  by (induction js) (auto simp: attempt_events_def is_fetch_def split: response.splits)

lemma first_final:
  fixes n :: nat
  assumes "\<exists>j<n. final (get j)"
  obtains k where "k < n" "final (get k)" "\<forall>j<k. \<not> final (get j)"
proof -
  let ?k = "LEAST j. j < n \<and> final (get j)"
  from assms have ex: "\<exists>j. j < n \<and> final (get j)"
    by blast
  have k: "?k < n \<and> final (get ?k)"
    using LeastI_ex[of "\<lambda>j. j < n \<and> final (get j)"] ex by blast
  have "\<not> final (get j)" if "j < ?k" for j
  proof
    assume "final (get j)"
    with that k have "j < n \<and> final (get j)"
      by simp
    with not_less_Least[of j "\<lambda>j. j < n \<and> final (get j)"] that show False
      by blast
  qed
  with k show ?thesis
    using that by blast
qed

text \<open>
  Claim C9. \<open>download_with_retry\<close> makes the attempts 0, 1, ... in order and at most
  \<open>max_retries\<close> of them. Each attempt that raises a timeout or another exception is
  followed by a sleep of \<open>2 ** attempt\<close> seconds. It returns the body of the first attempt
  whose status is 200, and on the first attempt whose status is 401 it logs the expired
  session and returns \<open>None\<close> with no further attempt; when no attempt has status 200 or
  401 it returns \<open>None\<close> after \<open>max_retries\<close> attempts.
\<close>

theorem download_with_retry_bounded:
  fixes requests_get url cookies max_retries
  defines "get \<equiv> requests_get url cookies"
    and "out \<equiv> download_with_retry requests_get url cookies max_retries"
  shows "(\<exists>n \<le> nat max_retries. snd out = concat (map (attempt_events get max_retries) [0..<n]))
   \<and> length (filter is_fetch (snd out)) \<le> nat max_retries
   \<and> (\<forall>k body. k < nat max_retries \<and> get k = Response 200 body \<and> (\<forall>j<k. \<not> final (get j))
        \<longrightarrow> out = (Some body, concat (map (attempt_events get max_retries) [0..<Suc k])))
   \<and> (\<forall>k body. k < nat max_retries \<and> get k = Response 401 body \<and> (\<forall>j<k. \<not> final (get j))
        \<longrightarrow> out = (None, concat (map (attempt_events get max_retries) [0..<k])
                            @ [Fetch k, LogSessionExpired]))
   \<and> ((\<forall>j<nat max_retries. \<not> final (get j))
        \<longrightarrow> out = (None, concat (map (attempt_events get max_retries) [0..<nat max_retries])))"
proof -
  have out: "out = attempts get max_retries 0 (nat max_retries)"
    by (simp add: out_def get_def download_with_retry_def)
  have stop: "out = ((case get k of Response c b \<Rightarrow> if c = 200 then Some b else None | _ \<Rightarrow> None),
      concat (map (attempt_events get max_retries) [0..<Suc k]))"
    if "k < nat max_retries" "final (get k)" "\<forall>j<k. \<not> final (get j)" for k
    using attempts_final[of 0 k "nat max_retries" get max_retries] that out by simp
  have run: "out = (None, concat (map (attempt_events get max_retries) [0..<nat max_retries]))"
    if "\<forall>j<nat max_retries. \<not> final (get j)"
    using attempts_no_final[of 0 "nat max_retries" get max_retries] that out by simp
  have a: "\<exists>n \<le> nat max_retries. snd out = concat (map (attempt_events get max_retries) [0..<n])"
  proof (cases "\<exists>j<nat max_retries. final (get j)")
    case True
    then obtain k where k: "k < nat max_retries" "final (get k)" "\<forall>j<k. \<not> final (get j)"
      by (rule first_final)
    from stop[OF k] k(1) show ?thesis
      by (intro exI[of _ "Suc k"]) simp
  next
    case False
    with run show ?thesis by (intro exI[of _ "nat max_retries"]) simp
  qed
  from a have b: "length (filter is_fetch (snd out)) \<le> nat max_retries"
    by (auto simp: fetches_attempt_events)
  have c: "out = (Some body, concat (map (attempt_events get max_retries) [0..<Suc k]))"
    if "k < nat max_retries" "get k = Response 200 body" "\<forall>j<k. \<not> final (get j)" for k body
    using stop[of k] that by (simp add: final_def)
  have d: "out = (None, concat (map (attempt_events get max_retries) [0..<k])
                            @ [Fetch k, LogSessionExpired])"
    if "k < nat max_retries" "get k = Response 401 body" "\<forall>j<k. \<not> final (get j)" for k body
    using stop[of k] that by (simp add: final_def attempt_events_def)
  from a b c d run show ?thesis by blast
qed

theorem download_with_retry_bounded_witness:
  "(2::nat) < nat 3
   \<and> flaky_get ''https://us.prairielearn.com/pl/clientFilesQuestion/a.png'' [] 2
       = Response 200 ''PNG''
   \<and> \<not> final (flaky_get ''https://us.prairielearn.com/pl/clientFilesQuestion/a.png'' [] 0)
   \<and> \<not> final (flaky_get ''https://us.prairielearn.com/pl/clientFilesQuestion/a.png'' [] 1)
   \<and> download_with_retry flaky_get ''https://us.prairielearn.com/pl/clientFilesQuestion/a.png'' [] 3
       = (Some ''PNG'', [Fetch 0, LogTimeout 1 3, Sleep 1, Fetch 1, Fetch 2])
   \<and> (1::nat) < nat 3
   \<and> expired_get ''https://us.prairielearn.com/pl/clientFilesQuestion/a.png'' [] 1
       = Response 401 ''Unauthorized''
   \<and> \<not> final (expired_get ''https://us.prairielearn.com/pl/clientFilesQuestion/a.png'' [] 0)
   \<and> download_with_retry expired_get ''https://us.prairielearn.com/pl/clientFilesQuestion/a.png'' [] 3
       = (None, [Fetch 0, LogFailed 1 ''connection reset'', Sleep 1, Fetch 1, LogSessionExpired])"
proof -
  let ?u = "''https://us.prairielearn.com/pl/clientFilesQuestion/a.png''"
  have f1: "(2::nat) < nat 3"
    by simp
  have f2: "flaky_get ?u [] 2 = Response 200 ''PNG''"
    by (simp add: flaky_get_def)
  have f3: "\<forall>j<2. \<not> final (flaky_get ?u [] j)"
    by (simp add: flaky_get_def final_def)
  have f4: "concat (map (attempt_events (flaky_get ?u []) 3) [0..<Suc 2])
      = [Fetch 0, LogTimeout 1 3, Sleep 1, Fetch 1, Fetch 2]"
    by code_simp
  have e1: "(1::nat) < nat 3"
    by simp
  have e2: "expired_get ?u [] 1 = Response 401 ''Unauthorized''"
    by (simp add: expired_get_def)
  have e3: "\<forall>j<1. \<not> final (expired_get ?u [] j)"
    by (simp add: expired_get_def final_def)
  have e4: "concat (map (attempt_events (expired_get ?u []) 3) [0..<1])
      = [Fetch 0, LogFailed 1 ''connection reset'', Sleep 1]"
    by code_simp
  from download_with_retry_bounded[of 3 flaky_get ?u "[]"] f1 f2 f3
  have "download_with_retry flaky_get ?u [] 3
      = (Some ''PNG'', concat (map (attempt_events (flaky_get ?u []) 3) [0..<Suc 2]))"
    by blast
  moreover from download_with_retry_bounded[of 3 expired_get ?u "[]"] e1 e2 e3
  have "download_with_retry expired_get ?u [] 3
      = (None, concat (map (attempt_events (expired_get ?u []) 3) [0..<1])
               @ [Fetch 1, LogSessionExpired])"
    by blast
  ultimately show ?thesis
    using f1 f2 f3 f4 e1 e2 e3 e4 by simp
qed

section \<open>Properties of the crawl driver\<close>

lemma resume_check_complete:
  assumes "validate_html_file files (path_join folder ''index.html'')"
    "files (path_join folder ''images'') = Some (Dir entries)" "entries \<noteq> []"
    "files (path_join folder ''render.png'') \<noteq> None"
  shows "resume_check files folder = Inr True"
  using assms by (simp add: resume_check_def os_listdir_def)

lemma resume_check_small:
  assumes "files (path_join folder ''index.html'') = Some (File fsize body)" "fsize < 1000"
  shows "\<not> validate_html_file files (path_join folder ''index.html'')"
    and "resume_check files folder = Inr False"
  using assms by (simp_all add: resume_check_def validate_html_file_def)

lemma fetch_question_events:
  "\<exists>more. events (snd (fetch_question e output_dir assess q st))
     = events st @ [LogDownloading (take 50 (q_title q)), Navigate (q_url q)] @ more"
  by (auto simp: fetch_question_def Let_def split: prod.splits option.splits sum.splits)






lemma process_question_fetch:
  assumes "question_id_of assess q \<notin> completed_questions st"
    "resume_check (disk st) (question_folder_of output_dir assess q) = Inr False"
  shows "process_question e output_dir assess st q =
     (case fetch_question e output_dir assess q st of
        (None, st') \<Rightarrow> st'
      | (Some exn, st') \<Rightarrow> st'\<lparr>events := events st' @ [LogError (take 50 (q_title q)) exn]\<rparr>)"
  using assms by (simp add: process_question_def question_body_def)

lemma process_question_skip:
  assumes "resume_check (disk st) (question_folder_of output_dir assess q) = Inr True"
  shows "disk (process_question e output_dir assess st q) = disk st
    \<and> world (process_question e output_dir assess st q) = world st
    \<and> question_id_of assess q \<in> completed_questions (process_question e output_dir assess st q)
    \<and> (events (process_question e output_dir assess st q)
          = events st @ [LogSkip (take 50 (q_title q))]
       \<or> events (process_question e output_dir assess st q)
          = events st @ [LogSkipCompleted (take 50 (q_title q))])"
  using assms by (simp add: process_question_def question_body_def)

text \<open>
  Claim C2, as the code has it. When the question's folder holds an \<open>index.html\<close> that
  passes \<open>validate_html_file\<close>, a non-empty \<open>images\<close> directory and a \<open>render.png\<close>, the
  loop body leaves the output tree and the browser as they are, logs the skip, has the
  question in the completed set, and records no navigation. When the question is not yet
  in the completed set of the run and \<open>index.html\<close> is smaller than 1000 bytes, the file is
  not valid and the body is the fetch: it logs the download and navigates to the
  question's URL before anything else.
\<close>

theorem resume_skips_complete_folder:
  "(validate_html_file (disk st) (path_join (question_folder_of output_dir assess q) ''index.html'')
      \<and> disk st (path_join (question_folder_of output_dir assess q) ''images'') = Some (Dir entries)
      \<and> entries \<noteq> []
      \<and> disk st (path_join (question_folder_of output_dir assess q) ''render.png'') \<noteq> None
    \<longrightarrow> disk (process_question e output_dir assess st q) = disk st
        \<and> world (process_question e output_dir assess st q) = world st
        \<and> question_id_of assess q \<in> completed_questions (process_question e output_dir assess st q)
        \<and> (events (process_question e output_dir assess st q)
              = events st @ [LogSkip (take 50 (q_title q))]
           \<or> events (process_question e output_dir assess st q)
              = events st @ [LogSkipCompleted (take 50 (q_title q))]))
   \<and> (question_id_of assess q \<notin> completed_questions st
      \<and> disk st (path_join (question_folder_of output_dir assess q) ''index.html'')
          = Some (File fsize body)
      \<and> fsize < 1000
    \<longrightarrow> \<not> validate_html_file (disk st)
            (path_join (question_folder_of output_dir assess q) ''index.html'')
        \<and> process_question e output_dir assess st q =
            (case fetch_question e output_dir assess q st of
               (None, st') \<Rightarrow> st'
             | (Some exn, st') \<Rightarrow>
                 st'\<lparr>events := events st' @ [LogError (take 50 (q_title q)) exn]\<rparr>)
        \<and> (\<exists>more. events (process_question e output_dir assess st q)
              = events st @ [LogDownloading (take 50 (q_title q)), Navigate (q_url q)] @ more))"
proof -
  let ?folder = "question_folder_of output_dir assess q"
  let ?st' = "process_question e output_dir assess st q"
  have skip: "disk ?st' = disk st \<and> world ?st' = world st
        \<and> question_id_of assess q \<in> completed_questions ?st'
        \<and> (events ?st' = events st @ [LogSkip (take 50 (q_title q))]
           \<or> events ?st' = events st @ [LogSkipCompleted (take 50 (q_title q))])"
    if "validate_html_file (disk st) (path_join ?folder ''index.html'')"
      "disk st (path_join ?folder ''images'') = Some (Dir entries)" "entries \<noteq> []"
      "disk st (path_join ?folder ''render.png'') \<noteq> None"
    using resume_check_complete[of "disk st" ?folder entries, OF that] by (rule process_question_skip)
  have fetch: "\<not> validate_html_file (disk st) (path_join ?folder ''index.html'')
        \<and> ?st' = (case fetch_question e output_dir assess q st of
               (None, st') \<Rightarrow> st'
             | (Some exn, st') \<Rightarrow>
                 st'\<lparr>events := events st' @ [LogError (take 50 (q_title q)) exn]\<rparr>)
        \<and> (\<exists>more. events ?st'
              = events st @ [LogDownloading (take 50 (q_title q)), Navigate (q_url q)] @ more)"
    if new: "question_id_of assess q \<notin> completed_questions st"
      and small: "disk st (path_join ?folder ''index.html'') = Some (File fsize body)" "fsize < 1000"
  proof -
    note rc = resume_check_small[of "disk st" ?folder fsize body, OF small]
    note pq = process_question_fetch[OF new rc(2), of e]
    from fetch_question_events[of e output_dir assess q st] obtain more where
      m: "events (snd (fetch_question e output_dir assess q st))
          = events st @ [LogDownloading (take 50 (q_title q)), Navigate (q_url q)] @ more"
      by blast
    have "\<exists>more. events ?st'
        = events st @ [LogDownloading (take 50 (q_title q)), Navigate (q_url q)] @ more"
      unfolding pq using m
      by (cases "fetch_question e output_dir assess q st") (auto split: option.splits)
    with rc(1) pq show ?thesis
      by blast
  qed
  from skip fetch show ?thesis
    by blast
qed

theorem resume_skips_complete_folder_witness:
  "validate_html_file (disk (crawl_start complete_folder))
     (path_join (question_folder_of ''out'' sample_assessment (sample_question ''Q1''))
        ''index.html'')
   \<and> disk (crawl_start complete_folder)
       (path_join (question_folder_of ''out'' sample_assessment (sample_question ''Q1''))
          ''images'') = Some (Dir [''fig.png''])
   \<and> disk (crawl_start complete_folder)
       (path_join (question_folder_of ''out'' sample_assessment (sample_question ''Q1''))
          ''render.png'') \<noteq> None
   \<and> events (process_question sample_env ''out'' sample_assessment (crawl_start complete_folder)
               (sample_question ''Q1'')) = [LogSkip ''Q1'']
   \<and> question_id_of sample_assessment (sample_question ''Q1'')
       \<notin> completed_questions (crawl_start truncated_folder)
   \<and> disk (crawl_start truncated_folder)
       (path_join (question_folder_of ''out'' sample_assessment (sample_question ''Q1''))
          ''index.html'') = Some (File 512 (Some ''<!DOCTYPE html><html>''))
   \<and> (\<exists>more. events (process_question sample_env ''out'' sample_assessment
                        (crawl_start truncated_folder) (sample_question ''Q1''))
        = [LogDownloading ''Q1'',
           Navigate ''https://us.prairielearn.com/pl/course_instance/1/instance_question/Q1'']
          @ more)"
proof -
  let ?folder = "question_folder_of ''out'' sample_assessment (sample_question ''Q1'')"
  have c1: "validate_html_file (disk (crawl_start complete_folder)) (path_join ?folder ''index.html'')"
    by code_simp
  have c2: "disk (crawl_start complete_folder) (path_join ?folder ''images'') = Some (Dir [''fig.png''])"
    by code_simp
  have c3: "disk (crawl_start complete_folder) (path_join ?folder ''render.png'') \<noteq> None"
    by code_simp
  have c4: "events (crawl_start complete_folder) = []"
    "question_id_of sample_assessment (sample_question ''Q1'')
       \<notin> completed_questions (crawl_start complete_folder)"
    by code_simp+
  have t1: "question_id_of sample_assessment (sample_question ''Q1'')
       \<notin> completed_questions (crawl_start truncated_folder)"
    by code_simp
  have t2: "disk (crawl_start truncated_folder) (path_join ?folder ''index.html'')
       = Some (File 512 (Some ''<!DOCTYPE html><html>''))"
    by code_simp
  have t3: "events (crawl_start truncated_folder) = []"
    "take 50 (q_title (sample_question ''Q1'')) = ''Q1''"
    "q_url (sample_question ''Q1'')
       = ''https://us.prairielearn.com/pl/course_instance/1/instance_question/Q1''"
    by code_simp+
  have skipped: "events (process_question sample_env ''out'' sample_assessment
                   (crawl_start complete_folder) (sample_question ''Q1'')) = [LogSkip ''Q1'']"
    by code_simp
  have lt: "(512::nat) < 1000" and ne: "[''fig.png''] \<noteq> []"
    by simp_all
  from resume_skips_complete_folder[where st = "crawl_start truncated_folder"
      and output_dir = "''out''" and assess = sample_assessment and q = "sample_question ''Q1''"
      and e = sample_env and fsize = 512 and body = "Some ''<!DOCTYPE html><html>''"] t1 t2 lt
  have "\<exists>more. events (process_question sample_env ''out'' sample_assessment
                        (crawl_start truncated_folder) (sample_question ''Q1''))
        = events (crawl_start truncated_folder)
          @ [LogDownloading (take 50 (q_title (sample_question ''Q1''))),
             Navigate (q_url (sample_question ''Q1''))] @ more"
    by blast
  then have "\<exists>more. events (process_question sample_env ''out'' sample_assessment
                        (crawl_start truncated_folder) (sample_question ''Q1''))
        = [LogDownloading ''Q1'',
           Navigate ''https://us.prairielearn.com/pl/course_instance/1/instance_question/Q1'']
          @ more"
    unfolding t3 by simp
  moreover
  from resume_skips_complete_folder[where st = "crawl_start complete_folder"
      and output_dir = "''out''" and assess = sample_assessment and q = "sample_question ''Q1''"
      and e = sample_env and entries = "[''fig.png'']"] c1 c2 c3 ne
  have "disk (process_question sample_env ''out'' sample_assessment (crawl_start complete_folder)
               (sample_question ''Q1'')) = disk (crawl_start complete_folder)"
    by blast
  ultimately show ?thesis
    using c1 c2 c3 t1 t2 skipped by blast
qed

text \<open>
  Claim C2 as stated has every question with a too small \<open>index.html\<close> fetched again. A
  question whose composite key is already in the completed set of the run is skipped at
  line 475 before its folder is looked at. In a run over an empty output tree, with two
  questions of the same title in one assessment, the first is fetched and saved as a page
  of 27 bytes, and the second is skipped as completed: nothing is fetched again although
  \<open>index.html\<close> is below 1000 bytes.
\<close>

theorem resume_completed_counterexample:
  "disk (process_question tiny_env ''out'' sample_assessment (crawl_start Map.empty)
           (sample_question ''Q1''))
     (path_join (question_folder_of ''out'' sample_assessment (sample_question ''Q1''))
        ''index.html'') = Some (File 27 (Some ''<html><body>Q</body></html>''))
   \<and> \<not> validate_html_file
         (disk (process_question tiny_env ''out'' sample_assessment (crawl_start Map.empty)
                  (sample_question ''Q1'')))
         (path_join (question_folder_of ''out'' sample_assessment (sample_question ''Q1''))
            ''index.html'')
   \<and> events (question_loop tiny_env ''out'' sample_assessment
               [sample_question ''Q1'', sample_question ''Q1''] (crawl_start Map.empty))
       = [LogDownloading ''Q1'',
          Navigate ''https://us.prairielearn.com/pl/course_instance/1/instance_question/Q1'',
          LogSkipCompleted ''Q1'']"
  by code_simp



section \<open>Properties of the path rewriter\<close>

lemma base_no_dir: "is_dir d \<Longrightarrow> \<not> prefix d (prairielearn_base @ w)"
  by (auto simp: is_dir_def prairielearn_base_def)

lemma base_no_qual: "is_dir d \<Longrightarrow> \<not> qual_run d (prairielearn_base @ w)"
  by (simp add: qual_run_def base_no_dir)

lemma suffix_append_short:
  assumes "length x \<le> length b"
  shows "suffix x (a @ b) \<longleftrightarrow> suffix x b"
proof
  assume "suffix x (a @ b)"
  moreover have "suffix b (a @ b)"
    by (rule suffix_appendI) simp
  ultimately show "suffix x b"
    using assms by (rule suffix_length_suffix)
next
  assume "suffix x b"
  then show "suffix x (a @ b)"
    by (rule suffix_appendI)
qed

lemma ends_attr_base: "5 \<le> length w \<Longrightarrow> ends_attr (prairielearn_base @ w) = ends_attr w"
  by (simp add: ends_attr_def suffix_append_short)

lemma qual_run_long: "is_dir d \<Longrightarrow> qual_run d w \<Longrightarrow> 5 \<le> length w"
  by (auto simp: is_dir_def qual_run_def)

lemma qual_run_prefix: "is_dir d \<Longrightarrow> qual_run d w \<Longrightarrow> prefix ''/assets/'' w \<or> prefix ''/pl/'' w"
  by (auto simp: is_dir_def qual_run_def)

lemma rewrite_skip_attr:
  assumes "\<not> ends_attr a"
  shows "rewrite_runs d (a # rest) = a # rewrite_runs d rest"
proof (cases rest)
  case Nil
  then show ?thesis by simp
next
  case (Cons w rest')
  with assms show ?thesis by (cases rest') simp_all
qed

lemma rewrite_skip_qual:
  "\<not> qual_run d w \<Longrightarrow> rewrite_runs d (u # w # rest) = u # rewrite_runs d (w # rest)"
  by (cases rest) simp_all

lemma rewrite_head: "\<exists>R. rewrite_runs d (w # rest) = w # R"
proof (cases rest)
  case Nil
  then show ?thesis by simp
next
  case (Cons x rest')
  then show ?thesis by (cases rest') simp_all
qed

lemma runs_ok_Cons: "runs_ok (w # rs) \<Longrightarrow> runs_ok rs"
  by (simp add: runs_ok_def)

lemma runs_ok_rewrite: "is_dir d \<Longrightarrow> runs_ok rs \<Longrightarrow> runs_ok (rewrite_runs d rs)"
proof (induction d rs rule: rewrite_runs.induct)
  case (1 dir u w x xs)
  from "1.prems"(2) have tail: "runs_ok (x # xs)" "runs_ok (w # x # xs)"
    and u: "prefix ''/assets/'' u \<or> prefix ''/pl/'' u \<longrightarrow> \<not> ends_attr u"
    by (simp_all add: runs_ok_def)
  show ?case
  proof (cases "ends_attr u \<and> qual_run dir w")
    case True
    have b: "\<not> prefix ''/assets/'' (prairielearn_base @ w)" "\<not> prefix ''/pl/'' (prairielearn_base @ w)"
      by (simp_all add: prairielearn_base_def)
    from True "1.IH"(1)[OF True "1.prems"(1) tail(1)] u b show ?thesis
      by (auto simp: runs_ok_def)
  next
    case False
    from False "1.IH"(2)[OF False "1.prems"(1) tail(2)] u show ?thesis
      by (auto simp: runs_ok_def)
  qed
qed simp_all

lemma rewrite_idem:
  "is_dir d \<Longrightarrow> runs_ok rs \<Longrightarrow> rewrite_runs d (rewrite_runs d rs) = rewrite_runs d rs"
proof (induction d rs rule: rewrite_runs.induct)
  case (1 dir u w x xs)
  from "1.prems"(2) have tail: "runs_ok (x # xs)" "runs_ok (w # x # xs)"
    and w: "prefix ''/assets/'' w \<or> prefix ''/pl/'' w \<longrightarrow> \<not> ends_attr w"
    by (simp_all add: runs_ok_def)
  show ?case
  proof (cases "ends_attr u \<and> qual_run dir w")
    case True
    let ?R = "rewrite_runs dir (x # xs)"
    from True qual_run_prefix[OF "1.prems"(1)] w have "\<not> ends_attr w"
      by blast
    with True qual_run_long[OF "1.prems"(1)] have nb: "\<not> ends_attr (prairielearn_base @ w)"
      by (simp add: ends_attr_base)
    obtain R' where R: "?R = x # R'"
      using rewrite_head by blast
    have "rewrite_runs dir (u # (prairielearn_base @ w) # ?R)
        = u # rewrite_runs dir ((prairielearn_base @ w) # ?R)"
      unfolding R by (rule rewrite_skip_qual) (rule base_no_qual[OF "1.prems"(1)])
    also have "rewrite_runs dir ((prairielearn_base @ w) # ?R)
        = (prairielearn_base @ w) # rewrite_runs dir ?R"
      using nb by (rule rewrite_skip_attr)
    also have "rewrite_runs dir ?R = ?R"
      using True "1.prems"(1) tail(1) by (rule "1.IH"(1))
    finally show ?thesis
      using True by simp
  next
    case False
    let ?R = "rewrite_runs dir (w # x # xs)"
    obtain R' where R: "?R = w # R'"
      using rewrite_head by blast
    have "rewrite_runs dir (u # ?R) = u # rewrite_runs dir ?R"
    proof (cases "ends_attr u")
      case True
      with False have "\<not> qual_run dir w" by simp
      then show ?thesis unfolding R by (rule rewrite_skip_qual)
    next
      case False
      then show ?thesis by (rule rewrite_skip_attr)
    qed
    also have "rewrite_runs dir ?R = ?R"
      using False "1.prems"(1) tail(2) by (rule "1.IH"(2))
    finally show ?thesis
      using False by auto
  qed
qed simp_all

lemma base_longer: "prairielearn_base @ w \<noteq> w"
  by (simp add: prairielearn_base_def)

lemma rewrite_fixed_tail:
  assumes "rewrite_runs d (u # w # rest) = u # w # rest"
  shows "rewrite_runs d (w # rest) = w # rest" and "rest \<noteq> [] \<Longrightarrow> \<not> (ends_attr u \<and> qual_run d w)"
proof -
  show "rewrite_runs d (w # rest) = w # rest"
  proof (cases rest)
    case Nil
    then show ?thesis by simp
  next
    case (Cons x xs)
    with assms base_longer[of w] show ?thesis
      by (auto split: if_splits)
  qed
  show "\<not> (ends_attr u \<and> qual_run d w)" if "rest \<noteq> []"
  proof (cases rest)
    case Nil
    with that show ?thesis by simp
  next
    case (Cons x xs)
    with assms base_longer[of w] show ?thesis
      by (auto split: if_splits)
  qed
qed

lemma rewrite_cross:
  "is_dir d \<Longrightarrow> is_dir d' \<Longrightarrow> runs_ok rs \<Longrightarrow> rewrite_runs d' rs = rs \<Longrightarrow>
   rewrite_runs d' (rewrite_runs d rs) = rewrite_runs d rs"
proof (induction d rs rule: rewrite_runs.induct)
  case (1 dir u w x xs)
  from "1.prems"(3) have tail: "runs_ok (x # xs)" "runs_ok (w # x # xs)"
    and w: "prefix ''/assets/'' w \<or> prefix ''/pl/'' w \<longrightarrow> \<not> ends_attr w"
    by (simp_all add: runs_ok_def)
  from rewrite_fixed_tail[OF "1.prems"(4)]
  have fw: "rewrite_runs d' (w # x # xs) = w # x # xs" and nh: "\<not> (ends_attr u \<and> qual_run d' w)"
    by simp_all
  from rewrite_fixed_tail(1)[OF fw] have fx: "rewrite_runs d' (x # xs) = x # xs" .
  show ?case
  proof (cases "ends_attr u \<and> qual_run dir w")
    case True
    let ?R = "rewrite_runs dir (x # xs)"
    from True qual_run_prefix[OF "1.prems"(1)] w have "\<not> ends_attr w"
      by blast
    with True qual_run_long[OF "1.prems"(1)] have nb: "\<not> ends_attr (prairielearn_base @ w)"
      by (simp add: ends_attr_base)
    have "rewrite_runs d' (u # (prairielearn_base @ w) # ?R)
        = u # rewrite_runs d' ((prairielearn_base @ w) # ?R)"
      by (rule rewrite_skip_qual) (rule base_no_qual[OF "1.prems"(2)])
    also have "rewrite_runs d' ((prairielearn_base @ w) # ?R)
        = (prairielearn_base @ w) # rewrite_runs d' ?R"
      using nb by (rule rewrite_skip_attr)
    also have "rewrite_runs d' ?R = ?R"
      using True "1.prems"(1,2) tail(1) fx by (rule "1.IH"(1))
    finally show ?thesis
      using True by simp
  next
    case False
    let ?R = "rewrite_runs dir (w # x # xs)"
    obtain R' where R: "?R = w # R'"
      using rewrite_head by blast
    have "rewrite_runs d' (u # ?R) = u # rewrite_runs d' ?R"
    proof (cases "ends_attr u")
      case True
      with nh have "\<not> qual_run d' w" by simp
      then show ?thesis unfolding R by (rule rewrite_skip_qual)
    next
      case False
      then show ?thesis by (rule rewrite_skip_attr)
    qed
    also have "rewrite_runs d' ?R = ?R"
      using False "1.prems"(1,2) tail(2) fw by (rule "1.IH"(2))
    finally show ?thesis
      using False by auto
  qed
qed simp_all

lemma rewrite_both_idem:
  assumes "runs_ok rs"
  defines "f \<equiv> \<lambda>rs. rewrite_runs ''/pl/'' (rewrite_runs ''/assets/'' rs)"
  shows "f (f rs) = f rs"
proof -
  have A: "is_dir ''/assets/''" and P: "is_dir ''/pl/''"
    by (simp_all add: is_dir_def)
  let ?a = "rewrite_runs ''/assets/'' rs"
  have oka: "runs_ok ?a"
    using A assms(1) by (rule runs_ok_rewrite)
  have fa: "rewrite_runs ''/assets/'' ?a = ?a"
    using A assms(1) by (rule rewrite_idem)
  have "rewrite_runs ''/assets/'' (f rs) = f rs"
    unfolding f_def using P A oka fa by (rule rewrite_cross)
  moreover have "rewrite_runs ''/pl/'' (f rs) = f rs"
    unfolding f_def using P oka by (rule rewrite_idem)
  ultimately show ?thesis
    by (simp add: f_def)
qed


lemma split_on_nonempty: "split_on sep s \<noteq> []"
  by (induction s) (auto split: list.splits)

lemma split_on_free: "r \<in> set (split_on sep s) \<Longrightarrow> sep \<notin> set r"
  by (induction s arbitrary: r) (auto split: list.splits if_splits)

lemma join_runs_Cons: "join_runs ((c # t) # ts) = c # join_runs (t # ts)"
  by (cases ts) simp_all

lemma join_quote_runs: "join_runs (quote_runs s) = s"
  unfolding quote_runs_def
proof (induction s)
  case Nil
  show ?case by simp
next
  case (Cons c cs)
  obtain t ts where ts: "split_on quote cs = t # ts"
    using split_on_nonempty[of quote cs] by (cases "split_on quote cs") auto
  show ?case
  proof (cases "c = quote")
    case True
    with Cons ts show ?thesis by simp
  next
    case False
    with Cons ts show ?thesis by (simp add: join_runs_Cons)
  qed
qed

lemma qfree_quote_runs: "qfree (quote_runs s)"
  by (auto simp: qfree_def quote_runs_def split_on_nonempty dest: split_on_free)

lemma base_quote_free: "quote \<notin> set prairielearn_base"
  by (simp add: prairielearn_base_def quote_def)

lemma qfree_rewrite: "qfree rs \<Longrightarrow> qfree (rewrite_runs d rs)"
proof (induction d rs rule: rewrite_runs.induct)
  case (1 dir u w x xs)
  from "1.prems" have t: "qfree (x # xs)" "qfree (w # x # xs)" and u: "quote \<notin> set u" "quote \<notin> set w"
    by (simp_all add: qfree_def)
  show ?case
  proof (cases "ends_attr u \<and> qual_run dir w")
    case True
    from "1.IH"(1)[OF True t(1)] True u base_quote_free show ?thesis
      by (auto simp: qfree_def)
  next
    case False
    from "1.IH"(2)[OF False t(2)] False u show ?thesis
      by (auto simp: qfree_def)
  qed
qed simp_all

lemma dir_quote_free: "is_dir d \<Longrightarrow> quote \<notin> set d"
  by (auto simp: is_dir_def quote_def)

lemma takeWhile_to_quote:
  "quote \<notin> set u \<Longrightarrow> takeWhile (\<lambda>c. c \<noteq> quote) (u @ quote # t) = u"
  by (induction u) auto

lemma dropWhile_to_quote:
  "quote \<notin> set u \<Longrightarrow> dropWhile (\<lambda>c. c \<noteq> quote) (u @ quote # t) = quote # t"
  by (induction u) auto

lemma dropWhile_no_quote:
  "quote \<notin> set w \<Longrightarrow> dropWhile (\<lambda>c. c \<noteq> quote) w = []"
  by (induction w) auto

lemma prefix_to_quote:
  assumes "quote \<notin> set a" "quote \<notin> set u"
  shows "prefix (a @ [quote]) (u @ quote # t) \<longleftrightarrow> a = u"
proof
  assume "prefix (a @ [quote]) (u @ quote # t)"
  then obtain z where "u @ quote # t = a @ quote # z"
    by (auto simp: prefix_def)
  then have eq: "takeWhile (\<lambda>c. c \<noteq> quote) (u @ quote # t)
      = takeWhile (\<lambda>c. c \<noteq> quote) (a @ quote # z)"
    by simp
  have "takeWhile (\<lambda>c. c \<noteq> quote) (u @ quote # t) = u"
    using assms(2) by (rule takeWhile_to_quote)
  moreover have "takeWhile (\<lambda>c. c \<noteq> quote) (a @ quote # z) = a"
    using assms(1) by (rule takeWhile_to_quote)
  ultimately show "a = u"
    using eq by simp
next
  assume "a = u"
  then show "prefix (a @ [quote]) (u @ quote # t)"
    by simp
qed

lemma attr_at_none: "quote \<notin> set s \<Longrightarrow> attr_at s = None"
proof -
  assume q: "quote \<notin> set s"
  have "\<not> prefix (a @ [quote]) s" for a
  proof
    assume "prefix (a @ [quote]) s"
    then have "set (a @ [quote]) \<subseteq> set s"
      by (rule set_mono_prefix)
    with q show False
      by simp
  qed
  then have "\<not> prefix (''src='' @ [quote]) s" "\<not> prefix (''href='' @ [quote]) s"
    by blast+
  then show ?thesis
    unfolding attr_at_def by (simp only: if_False)
qed

lemma attr_at_head_quote: "attr_at (quote # t) = None"
  by (simp add: attr_at_def quote_def)

lemma attr_at_quote:
  assumes "quote \<notin> set u"
  shows "attr_at (u @ quote # t) =
     (if u = ''src='' then Some (''src'', t)
      else if u = ''href='' then Some (''href'', t) else None)"
proof -
  have src: "prefix (''src='' @ [quote]) (u @ quote # t) \<longleftrightarrow> ''src='' = u"
    using assms by (intro prefix_to_quote) (simp_all add: quote_def)
  have href: "prefix (''href='' @ [quote]) (u @ quote # t) \<longleftrightarrow> ''href='' = u"
    using assms by (intro prefix_to_quote) (simp_all add: quote_def)
  show ?thesis
  proof (cases "u = ''src=''")
    case True
    then show ?thesis
      unfolding attr_at_def src by simp
  next
    case ns: False
    show ?thesis
    proof (cases "u = ''href=''")
      case True
      then show ?thesis
        unfolding attr_at_def src href by simp
    next
      case False
      with ns show ?thesis
        unfolding attr_at_def src href by auto
    qed
  qed
qed

lemma value_at_none: "quote \<notin> set w \<Longrightarrow> value_at d w = None"
proof -
  assume "quote \<notin> set w"
  then have "quote \<notin> set (drop (length d) w)"
    by (auto dest: in_set_dropD)
  then have "dropWhile (\<lambda>c. c \<noteq> quote) (drop (length d) w) = []"
    by (rule dropWhile_no_quote)
  then show ?thesis
    by (simp add: value_at_def Let_def)
qed

lemma prefix_dir_run:
  assumes "quote \<notin> set d"
  shows "prefix d (w @ quote # y) \<longleftrightarrow> prefix d w"
proof
  assume "prefix d (w @ quote # y)"
  then have "prefix d w \<or> (\<exists>us. d = w @ us \<and> prefix us (quote # y) \<and> us \<noteq> [])"
    by (auto simp: prefix_append)
  moreover have False if "d = w @ us" "prefix us (quote # y)" "us \<noteq> []" for us
    using that assms by (cases us) auto
  ultimately show "prefix d w"
    by blast
next
  assume "prefix d w"
  then show "prefix d (w @ quote # y)"
    by (rule prefix_prefix)
qed

lemma value_at_run:
  assumes "quote \<notin> set w" "quote \<notin> set d"
  shows "value_at d (w @ quote # y) = (if qual_run d w then Some (w, y) else None)"
proof (cases "prefix d w")
  case False
  then show ?thesis
    by (simp add: value_at_def prefix_dir_run[OF assms(2)] qual_run_def)
next
  case True
  then obtain v where w: "w = d @ v"
    by (auto simp: prefix_def)
  with assms(1) have v: "quote \<notin> set v"
    by simp
  have "value_at d (d @ v @ quote # y) = (if v \<noteq> [] then Some (d @ v, y) else None)"
    by (simp add: value_at_def Let_def takeWhile_to_quote[OF v] dropWhile_to_quote[OF v])
  then show ?thesis
    by (simp add: w qual_run_def)
qed

lemma no_match_without_quote: "quote \<notin> set s \<Longrightarrow> path_match_at d s = None"
  by (simp add: path_match_at_def attr_at_none)

lemma no_match_at_quote: "path_match_at d (quote # t) = None"
  by (simp add: path_match_at_def attr_at_head_quote)

lemma match_one_quote:
  assumes "quote \<notin> set u" "quote \<notin> set w"
  shows "path_match_at d (u @ quote # w) = None"
  by (simp add: path_match_at_def attr_at_quote[OF assms(1)] value_at_none[OF assms(2)])

lemma match_two_quotes:
  assumes "quote \<notin> set u" "quote \<notin> set w" "is_dir d"
  shows "path_match_at d (u @ quote # w @ quote # y) =
     (if (u = ''src='' \<or> u = ''href='') \<and> qual_run d w then Some (butlast u, w, y) else None)"
  by (auto simp: path_match_at_def attr_at_quote[OF assms(1)]
        value_at_run[OF assms(2) dir_quote_free[OF assms(3)]])

lemma re_sub_no_quote: "quote \<notin> set s \<Longrightarrow> re_sub_path d s = s"
proof (induction s)
  case Nil
  show ?case by simp
next
  case (Cons c cs)
  from Cons.prems have "path_match_at d (c # cs) = None"
    by (rule no_match_without_quote)
  with Cons show ?case by simp
qed

lemma ends_attr_Cons:
  "c # u \<noteq> ''src='' \<Longrightarrow> c # u \<noteq> ''href='' \<Longrightarrow> ends_attr (c # u) = ends_attr u"
  by (auto simp: ends_attr_def suffix_Cons)

lemma ends_attr_exact: "ends_attr ''src=''" "ends_attr ''href=''"
  by (simp_all add: ends_attr_def)

lemma re_sub_one_quote:
  "quote \<notin> set u \<Longrightarrow> quote \<notin> set w \<Longrightarrow> re_sub_path d (u @ quote # w) = u @ quote # w"
proof (induction u)
  case Nil
  then show ?case
    by (simp add: no_match_at_quote re_sub_no_quote)
next
  case (Cons c u)
  from Cons.prems have "path_match_at d ((c # u) @ quote # w) = None"
    by (intro match_one_quote)
  with Cons show ?case by simp
qed

lemma re_sub_two_quotes:
  "quote \<notin> set u \<Longrightarrow> quote \<notin> set w \<Longrightarrow> is_dir d \<Longrightarrow>
   re_sub_path d (u @ quote # w @ quote # y) =
     (if ends_attr u \<and> qual_run d w
      then u @ quote # prairielearn_base @ w @ quote # re_sub_path d y
      else u @ quote # re_sub_path d (w @ quote # y))"
proof (induction u)
  case Nil
  then show ?case
    by (simp add: no_match_at_quote ends_attr_def)
next
  case (Cons c u)
  from Cons.prems have m: "path_match_at d ((c # u) @ quote # w @ quote # y) =
     (if (c # u = ''src='' \<or> c # u = ''href='') \<and> qual_run d w
      then Some (butlast (c # u), w, y) else None)"
    by (intro match_two_quotes)
  from Cons have ih: "re_sub_path d (u @ quote # w @ quote # y) =
     (if ends_attr u \<and> qual_run d w
      then u @ quote # prairielearn_base @ w @ quote # re_sub_path d y
      else u @ quote # re_sub_path d (w @ quote # y))"
    by simp
  show ?case
  proof (cases "(c # u = ''src='' \<or> c # u = ''href='') \<and> qual_run d w")
    case True
    then have e: "ends_attr (c # u)"
      using ends_attr_exact by auto
    from True have b: "butlast (c # u) @ ''='' = c # u"
      by auto
    have "re_sub_path d ((c # u) @ quote # w @ quote # y)
        = butlast (c # u) @ ''='' @ [quote] @ prairielearn_base @ w @ [quote] @ re_sub_path d y"
      using m True by simp
    also have "\<dots> = (c # u) @ quote # prairielearn_base @ w @ quote # re_sub_path d y"
      using b by (metis append.assoc append_Cons append_Nil)
    finally show ?thesis
      using e True by simp
  next
    case False
    then have n: "path_match_at d (c # u @ quote # w @ quote # y) = None"
      using m by simp
    have e: "ends_attr (c # u) \<and> qual_run d w \<longleftrightarrow> ends_attr u \<and> qual_run d w"
      using False ends_attr_Cons[of c u] by blast
    have "re_sub_path d ((c # u) @ quote # w @ quote # y)
        = c # re_sub_path d (u @ quote # w @ quote # y)"
      using n by simp
    then show ?thesis
      unfolding ih using e by auto
  qed
qed

lemma re_sub_join:
  "qfree rs \<Longrightarrow> is_dir d \<Longrightarrow> re_sub_path d (join_runs rs) = join_runs (rewrite_runs d rs)"
proof (induction d rs rule: rewrite_runs.induct)
  case (1 dir u w x xs)
  from "1.prems"(1) have t: "qfree (x # xs)" "qfree (w # x # xs)"
    and u: "quote \<notin> set u" "quote \<notin> set w"
    by (simp_all add: qfree_def)
  have j: "join_runs (u # w # x # xs) = u @ quote # w @ quote # join_runs (x # xs)"
    by simp
  obtain R where R: "rewrite_runs dir (x # xs) = x # R"
    using rewrite_head by blast
  obtain R' where R': "rewrite_runs dir (w # x # xs) = w # R'"
    using rewrite_head by blast
  show ?case
  proof (cases "ends_attr u \<and> qual_run dir w")
    case True
    from "1.IH"(1)[OF True t(1) "1.prems"(2)] True show ?thesis
      unfolding j re_sub_two_quotes[OF u "1.prems"(2)]
      by (simp add: R)
  next
    case False
    have "re_sub_path dir (w @ quote # join_runs (x # xs)) = join_runs (rewrite_runs dir (w # x # xs))"
      using "1.IH"(2)[OF False t(2) "1.prems"(2)] by simp
    with False show ?thesis
      unfolding j re_sub_two_quotes[OF u "1.prems"(2)]
      by (auto simp: R')
  qed
qed (simp_all add: qfree_def re_sub_no_quote re_sub_one_quote)

lemma fix_paths_runs:
  "qfree rs \<Longrightarrow>
   fix_paths (join_runs rs) = join_runs (rewrite_runs ''/pl/'' (rewrite_runs ''/assets/'' rs))"
  by (simp add: fix_paths_def re_sub_join qfree_rewrite is_dir_def)

text \<open>
  Claim C7, as the code has it. On a text in which no run between double quotes begins
  with \<open>/assets/\<close> or \<open>/pl/\<close> and ends with \<open>src=\<close> or \<open>href=\<close>, rewriting the paths twice
  gives what rewriting them once gives, and \<open>fix_html_file\<close> on a file that holds rewritten
  content reports no change and leaves the files as they are.
\<close>

theorem fix_paths_idempotent:
  assumes "well_quoted content"
  shows "fix_paths (fix_paths content) = fix_paths content
       \<and> (\<forall>files filepath fsize. files filepath = Some (File fsize (Some (fix_paths content)))
            \<longrightarrow> fix_html_file writable files filepath = (False, files))"
proof -
  let ?rs = "quote_runs content"
  let ?out = "rewrite_runs ''/pl/'' (rewrite_runs ''/assets/'' ?rs)"
  have q: "qfree ?rs"
    by (rule qfree_quote_runs)
  have ok: "runs_ok ?rs"
    using assms by (simp add: well_quoted_def runs_ok_def)
  have one: "fix_paths content = join_runs ?out"
    using fix_paths_runs[OF q] by (simp add: join_quote_runs)
  have "qfree ?out"
    using q by (intro qfree_rewrite)
  then have "fix_paths (join_runs ?out)
      = join_runs (rewrite_runs ''/pl/'' (rewrite_runs ''/assets/'' ?out))"
    by (rule fix_paths_runs)
  also have "rewrite_runs ''/pl/'' (rewrite_runs ''/assets/'' ?out) = ?out"
    using ok by (rule rewrite_both_idem)
  finally have twice: "fix_paths (fix_paths content) = fix_paths content"
    by (simp add: one)
  then show ?thesis
    by (simp add: fix_html_file_def)
qed

theorem fix_paths_idempotent_witness:
  "well_quoted sample_page
   \<and> fix_paths sample_page =
       ''<link href='' @ [quote] @ ''https://us.prairielearn.com/assets/a.css'' @ [quote] @
       ''><img src='' @ [quote] @ ''https://us.prairielearn.com/pl/x.png'' @ [quote] @ ''>''
   \<and> fix_paths (fix_paths sample_page) = fix_paths sample_page"
proof -
  have w: "well_quoted sample_page"
    by code_simp
  have v: "fix_paths sample_page =
       ''<link href='' @ [quote] @ ''https://us.prairielearn.com/assets/a.css'' @ [quote] @
       ''><img src='' @ [quote] @ ''https://us.prairielearn.com/pl/x.png'' @ [quote] @ ''>''"
    by code_simp
  from fix_paths_idempotent[OF w] w v show ?thesis
    by blast
qed

text \<open>
  Claim C7 as stated is about every text. Where a matched value runs into the opening of
  another attribute, the first application consumes the quote that opens the second value,
  and only a second application rewrites it: the paragraph text \<open>src="/assets/a\<close>
  followed by a link to \<open>/assets/y\<close> is changed again by a second application.
\<close>

theorem fix_paths_overlap_counterexample:
  "fix_paths overlapping_page =
     ''<p>src='' @ [quote] @ ''https://us.prairielearn.com/assets/a</p><a href='' @ [quote] @
     ''/assets/y'' @ [quote] @ ''>''
   \<and> fix_paths (fix_paths overlapping_page) =
     ''<p>src='' @ [quote] @ ''https://us.prairielearn.com/assets/a</p><a href='' @ [quote] @
     ''https://us.prairielearn.com/assets/y'' @ [quote] @ ''>''
   \<and> fix_paths (fix_paths overlapping_page) \<noteq> fix_paths overlapping_page"
  by code_simp

end
